theory Spec2Isabelle
  imports Complex_Main "HOL-Library.Word"
begin

section \<open>Data model (types.ts)\<close>

text \<open>
  \<^verbatim>\<open>TextSegment\<close> and \<^verbatim>\<open>PlaybackState\<close> as declared in types.ts. The field \<^verbatim>\<open>id\<close> is
  named \<open>seg_id\<close> here, since \<open>id\<close> is the identity function of HOL.
\<close>

record TextSegment =
  seg_id :: string
  original :: string
  translation :: string

datatype PlaybackState = IDLE | LOADING_AUDIO | PLAYING

section \<open>Decoding a payload (decodeBase64, decodeAudioData)\<close>

type_synonym byte = "8 word"

datatype js_error = InvalidCharacterError | RangeError | NotSupportedError | SpeechError

text \<open>
  \<^verbatim>\<open>decodeBase64\<close> calls the platform's \<^verbatim>\<open>window.atob\<close> and copies the char codes of
  the binary string it returns into a \<^verbatim>\<open>Uint8Array\<close>. The platform function is a
  parameter \<open>atob\<close> of the model; it returns the binary string as the list of its char
  codes, and \<open>None\<close> is the \<^verbatim>\<open>InvalidCharacterError\<close> it throws on a string that is
  not base64. Storing a number into a \<^verbatim>\<open>Uint8Array\<close> keeps it modulo 256, as \<open>of_nat\<close>
  into \<open>8 word\<close> does.
\<close>

definition decodeBase64 :: "(string \<Rightarrow> nat list option) \<Rightarrow> string \<Rightarrow> js_error + byte list" where
  "decodeBase64 atob base64 =
     (case atob base64 of
        None \<Rightarrow> Inl InvalidCharacterError
      | Some binaryString \<Rightarrow> Inr (map of_nat binaryString))"

text \<open>
  \<^verbatim>\<open>new Int16Array(data.buffer)\<close> views the bytes as 16-bit integers in the byte order
  of the platform, which is little-endian wherever a browser runs: the first byte of a
  pair is the low one.
\<close>

definition int16_le :: "byte \<Rightarrow> byte \<Rightarrow> 16 word" where
  "int16_le lo hi = ucast lo + 256 * ucast hi"

fun Int16Array :: "byte list \<Rightarrow> 16 word list" where
  "Int16Array (lo # hi # rest) = int16_le lo hi # Int16Array rest"
| "Int16Array rest = []"

record AudioBuffer =
  numberOfChannels :: nat
  sampleRate :: nat
  channelData :: "real list"

text \<open>
  \<^verbatim>\<open>decodeAudioData\<close>: the \<^verbatim>\<open>Int16Array\<close> constructor throws a \<^verbatim>\<open>RangeError\<close> when the
  byte length of the buffer is odd, and \<^verbatim>\<open>createBuffer\<close> throws a \<^verbatim>\<open>NotSupportedError\<close>
  when the frame count is zero. The loop stores \<^verbatim>\<open>dataInt16[i] / 32768.0\<close>; a 16-bit
  integer divided by \<open>2\<^sup>1\<^sup>5\<close> is exact in binary floating point (double and single
  precision), so the samples are modelled as the real numbers they are.
\<close>

definition decodeAudioData :: "byte list \<Rightarrow> js_error + AudioBuffer" where
  "decodeAudioData data =
     (if odd (length data) then Inl RangeError
      else
        let dataInt16 = Int16Array data;
            frameCount = length dataInt16
        in if frameCount = 0 then Inl NotSupportedError
           else Inr \<lparr>numberOfChannels = 1, sampleRate = 24000,
                     channelData = map (\<lambda>v. real_of_int (sint v) / 32768) dataInt16\<rparr>)"

text \<open>The first two statements of the \<^verbatim>\<open>try\<close> block of \<^verbatim>\<open>playPcmData\<close>.\<close>

definition decodePcm :: "(string \<Rightarrow> nat list option) \<Rightarrow> string \<Rightarrow> js_error + AudioBuffer" where
  "decodePcm atob base64Data =
     (case decodeBase64 atob base64Data of
        Inl err \<Rightarrow> Inl err
      | Inr bytes \<Rightarrow> decodeAudioData bytes)"

text \<open>
  The value of a little-endian byte pair as a signed 16-bit integer, in plain integer
  arithmetic: what the decoder's output is compared with.
\<close>

definition signed16 :: "byte \<Rightarrow> byte \<Rightarrow> int" where
  "signed16 lo hi =
     (let u = uint lo + 256 * uint hi in if u < 32768 then u else u - 65536)"

subsection \<open>The platform's atob\<close>

text \<open>
  A concrete \<open>atob\<close> for closed examples: the forgiving-base64 decoding that browsers
  implement. ASCII whitespace is dropped, up to two padding characters are removed when
  the length is a multiple of four, a length of one modulo four or a character outside
  the alphabet is an error, and leftover bits of the last group are discarded.
\<close>

definition b64_digit :: "char \<Rightarrow> nat option" where
  "b64_digit c =
     (let n = (of_char c :: nat) in
      if 65 \<le> n \<and> n \<le> 90 then Some (n - 65)
      else if 97 \<le> n \<and> n \<le> 122 then Some (n - 71)
      else if 48 \<le> n \<and> n \<le> 57 then Some (n + 4)
      else if n = 43 then Some 62
      else if n = 47 then Some 63
      else None)"

fun b64_digits :: "string \<Rightarrow> nat list option" where
  "b64_digits [] = Some []"
| "b64_digits (c # cs) =
     (case b64_digit c of
        None \<Rightarrow> None
      | Some d \<Rightarrow> (case b64_digits cs of None \<Rightarrow> None | Some ds \<Rightarrow> Some (d # ds)))"

fun b64_bytes :: "nat list \<Rightarrow> nat list" where
  "b64_bytes (a # b # c # d # rest) =
     (a * 4 + b div 16) # ((b mod 16) * 16 + c div 4) # ((c mod 4) * 64 + d) # b64_bytes rest"
| "b64_bytes [a, b, c] = [a * 4 + b div 16, (b mod 16) * 16 + c div 4]"
| "b64_bytes [a, b] = [a * 4 + b div 16]"
| "b64_bytes rest = []"

definition ascii_whitespace :: "char \<Rightarrow> bool" where
  "ascii_whitespace c = ((of_char c :: nat) \<in> {9, 10, 12, 13, 32})"

definition strip_padding :: "string \<Rightarrow> string" where
  "strip_padding s =
     (if length s mod 4 = 0 then
        (case rev s of
           c1 # c2 # r \<Rightarrow>
             if c1 = CHR ''='' \<and> c2 = CHR ''='' then rev r
             else if c1 = CHR ''='' then rev (c2 # r)
             else s
         | _ \<Rightarrow> s)
      else s)"

definition window_atob :: "string \<Rightarrow> nat list option" where
  "window_atob s =
     (let d = strip_padding (filter (\<lambda>c. \<not> ascii_whitespace c) s) in
      if length d mod 4 = 1 then None
      else (case b64_digits d of
              None \<Rightarrow> None
            | Some ds \<Rightarrow> Some (b64_bytes ds)))"

section \<open>The state of the App component\<close>

text \<open>
  The \<^verbatim>\<open>useState\<close> cells of \<^verbatim>\<open>App\<close> that the playback code reads or writes
  (\<^verbatim>\<open>targetLanguage\<close> and \<^verbatim>\<open>isCopied\<close> play no part in it). \<^verbatim>\<open>audioCache\<close> is a
  \<^verbatim>\<open>Record<string, string>\<close>, modelled as a map; segment ids that name a property
  inherited from \<^verbatim>\<open>Object.prototype\<close> are outside the model.
\<close>

record react_state =
  inputText :: string
  segments :: "TextSegment list"
  isProcessing :: bool
  playbackState :: PlaybackState
  playingSegmentId :: "string option"
  selectedVoice :: string
  audioCache :: "string \<Rightarrow> string option"

text \<open>
  Every render of \<^verbatim>\<open>App\<close> creates its functions anew, and each of them closes over the
  state values of that render. One activation of \<^verbatim>\<open>playSegment\<close> therefore carries its
  two arguments and the render's state \<open>env\<close>; the \<^verbatim>\<open>onEnded\<close> callback it hands to
  \<^verbatim>\<open>playPcmData\<close>, and the code that runs after its \<^verbatim>\<open>await\<close>, see exactly these.
\<close>

record play_closure =
  segment :: TextSegment
  autoPlayNext :: bool
  env :: react_state

text \<open>
  An \<^verbatim>\<open>AudioBufferSourceNode\<close> created by \<^verbatim>\<open>playPcmData\<close>. Every node of the store has
  been started; \<open>stopped\<close> records a call of \<^verbatim>\<open>stop()\<close>, \<open>ended\<close> that its \<^verbatim>\<open>ended\<close>
  event has been dispatched. \<open>onended = None\<close> is the handler set to \<^verbatim>\<open>null\<close>.
\<close>

record source_node =
  buffer :: AudioBuffer
  onended :: "play_closure option"
  stopped :: bool
  ended :: bool

text \<open>
  A call of \<^verbatim>\<open>generateSpeech\<close>: its two arguments, the activation of \<^verbatim>\<open>playSegment\<close>
  that awaits it, and whether the promise has settled. The list of calls is the log of
  the requests made to the synthesis service.
\<close>

record speech_call =
  call_text :: string
  call_voiceName :: string
  continuation :: play_closure
  resolved :: bool

text \<open>
  The whole state: the committed React state \<open>st\<close>, the two refs, the source nodes
  created so far (a handle is an index into \<open>sources\<close>), the synthesis calls made so
  far, and the number of \<^verbatim>\<open>analyzeText\<close> calls in flight.
\<close>

record world =
  st :: react_state
  audioContextRef :: bool
  activeSourceRef :: "nat option"
  sources :: "source_node list"
  calls :: "speech_call list"
  analyses :: nat

definition init_state :: react_state where
  "init_state = \<lparr>inputText = [], segments = [], isProcessing = False, playbackState = IDLE,
     playingSegmentId = None, selectedVoice = ''Kore'', audioCache = Map.empty\<rparr>"

definition init_world :: world where
  "init_world = \<lparr>st = init_state, audioContextRef = False, activeSourceRef = None,
     sources = [], calls = [], analyses = 0\<rparr>"

subsection \<open>State setters\<close>

text \<open>
  A setter changes the committed state at once. The functions of the render that
  called it keep reading their own \<open>env\<close>; the next user event runs in a new render and
  reads the committed state.
\<close>

definition setInputText :: "string \<Rightarrow> world \<Rightarrow> world" where
  "setInputText v w = w\<lparr>st := (st w)\<lparr>inputText := v\<rparr>\<rparr>"

definition setSegments :: "TextSegment list \<Rightarrow> world \<Rightarrow> world" where
  "setSegments v w = w\<lparr>st := (st w)\<lparr>segments := v\<rparr>\<rparr>"

definition setIsProcessing :: "bool \<Rightarrow> world \<Rightarrow> world" where
  "setIsProcessing v w = w\<lparr>st := (st w)\<lparr>isProcessing := v\<rparr>\<rparr>"

definition setPlaybackState :: "PlaybackState \<Rightarrow> world \<Rightarrow> world" where
  "setPlaybackState v w = w\<lparr>st := (st w)\<lparr>playbackState := v\<rparr>\<rparr>"

definition setPlayingSegmentId :: "string option \<Rightarrow> world \<Rightarrow> world" where
  "setPlayingSegmentId v w = w\<lparr>st := (st w)\<lparr>playingSegmentId := v\<rparr>\<rparr>"

definition setSelectedVoice :: "string \<Rightarrow> world \<Rightarrow> world" where
  "setSelectedVoice v w = w\<lparr>st := (st w)\<lparr>selectedVoice := v\<rparr>\<rparr>"

text \<open>\<^verbatim>\<open>setAudioCache\<close> takes an updater function, applied to the latest committed cache.\<close>

definition setAudioCache ::
    "((string \<Rightarrow> string option) \<Rightarrow> (string \<Rightarrow> string option)) \<Rightarrow> world \<Rightarrow> world" where
  "setAudioCache f w = w\<lparr>st := (st w)\<lparr>audioCache := f (audioCache (st w))\<rparr>\<rparr>"

section \<open>The playback functions of App\<close>

text \<open>\<^verbatim>\<open>src.onended = null; src.stop()\<close> on the node with handle \<open>h\<close>.\<close>

definition disarm_and_stop :: "nat \<Rightarrow> world \<Rightarrow> world" where
  "disarm_and_stop h w =
     w\<lparr>sources := (sources w)[h := (sources w ! h)\<lparr>onended := None, stopped := True\<rparr>]\<rparr>"

definition stopPlayback :: "world \<Rightarrow> world" where
  "stopPlayback w =
     (let w1 = (case activeSourceRef w of
                  Some h \<Rightarrow> (disarm_and_stop h w)\<lparr>activeSourceRef := None\<rparr>
                | None \<Rightarrow> w)
      in setPlaybackState IDLE (setPlayingSegmentId None w1))"

text \<open>
  \<^verbatim>\<open>initAudioContext\<close> creates the context on first use and reuses it afterwards;
  resuming a suspended context changes nothing that is modelled.
\<close>

definition initAudioContext :: "world \<Rightarrow> world" where
  "initAudioContext w = w\<lparr>audioContextRef := True\<rparr>"

text \<open>\<^verbatim>\<open>Array.prototype.findIndex\<close>: the first index whose element passes, or \<open>-1\<close>.\<close>

fun findIndex :: "('a \<Rightarrow> bool) \<Rightarrow> 'a list \<Rightarrow> int" where
  "findIndex P [] = - 1"
| "findIndex P (x # xs) =
     (if P x then 0 else (let r = findIndex P xs in if r < 0 then - 1 else r + 1))"

text \<open>
  \<^verbatim>\<open>let pcmBase64 = audioCache[segment.id]; if (!pcmBase64) ...\<close>: a missing key and
  an empty string both count as a miss.
\<close>

definition cached :: "(string \<Rightarrow> string option) \<Rightarrow> string \<Rightarrow> string option" where
  "cached cache k = (case cache k of None \<Rightarrow> None | Some v \<Rightarrow> if v = [] then None else Some v)"

text \<open>
  The call \<^verbatim>\<open>generateSpeech(segment.original, selectedVoice)\<close>: the request is logged
  and the activation is suspended at its \<^verbatim>\<open>await\<close>.
\<close>

definition call_generateSpeech :: "play_closure \<Rightarrow> world \<Rightarrow> world" where
  "call_generateSpeech cl w =
     w\<lparr>calls := calls w @ [\<lparr>call_text = original (segment cl),
                              call_voiceName = selectedVoice (env cl),
                              continuation = cl, resolved = False\<rparr>]\<rparr>"

text \<open>
  \<^verbatim>\<open>playPcmData\<close>, \<^verbatim>\<open>playSegment\<close>, \<^verbatim>\<open>playNextSegment\<close> and the callback \<^verbatim>\<open>onEnded\<close> that
  \<^verbatim>\<open>playSegment\<close> builds call each other. \<^verbatim>\<open>playSegment\<close> runs up to the \<^verbatim>\<open>await\<close> of
  \<^verbatim>\<open>generateSpeech\<close> on a cache miss and to its end on a hit. The \<^verbatim>\<open>catch\<close> of
  \<^verbatim>\<open>playPcmData\<close> calls \<^verbatim>\<open>onEnded\<close> at once, which in a chain plays the next segment,
  whose payload may fail to decode again: nothing in the code bounds this, so the
  model carries fuel \<open>n\<close>, one unit for each such call, and \<open>None\<close> means that the fuel
  ran out. The awaits inside \<^verbatim>\<open>playPcmData\<close> resolve in microtasks, before any other
  event is handled, so the function is one step of the model.
\<close>

function playPcmData ::
    "nat \<Rightarrow> (string \<Rightarrow> nat list option) \<Rightarrow> string \<Rightarrow> play_closure \<Rightarrow> world \<Rightarrow> world option"
and playSegment ::
    "nat \<Rightarrow> (string \<Rightarrow> nat list option) \<Rightarrow> react_state \<Rightarrow> TextSegment \<Rightarrow> bool \<Rightarrow> world \<Rightarrow> world option"
and playNextSegment ::
    "nat \<Rightarrow> (string \<Rightarrow> nat list option) \<Rightarrow> react_state \<Rightarrow> string \<Rightarrow> world \<Rightarrow> world option"
and onEnded ::
    "nat \<Rightarrow> (string \<Rightarrow> nat list option) \<Rightarrow> play_closure \<Rightarrow> world \<Rightarrow> world option"
where
  "playPcmData n atob base64Data cl w =
     (let w1 = initAudioContext w;
          w2 = (case activeSourceRef w1 of
                  Some h \<Rightarrow> disarm_and_stop h w1
                | None \<Rightarrow> w1)
      in case decodePcm atob base64Data of
           Inr buf \<Rightarrow>
             Some (w2\<lparr>sources := sources w2 @
                        [\<lparr>buffer = buf, onended = Some cl, stopped = False, ended = False\<rparr>],
                      activeSourceRef := Some (length (sources w2))\<rparr>)
         | Inl err \<Rightarrow>
             (case n of 0 \<Rightarrow> None | Suc m \<Rightarrow> onEnded m atob cl w2))"
| "playSegment n atob e seg auto w =
     (let w1 = setPlayingSegmentId (Some (seg_id seg)) w;
          cl = \<lparr>segment = seg, autoPlayNext = auto, env = e\<rparr>
      in case cached (audioCache e) (seg_id seg) of
           None \<Rightarrow> Some (call_generateSpeech cl (setPlaybackState LOADING_AUDIO w1))
         | Some pcmBase64 \<Rightarrow> playPcmData n atob pcmBase64 cl (setPlaybackState PLAYING w1))"
| "playNextSegment n atob e currentId w =
     (let currentIndex = findIndex (\<lambda>s. seg_id s = currentId) (segments e)
      in if currentIndex \<ge> 0 \<and> currentIndex < int (length (segments e)) - 1
         then playSegment n atob e (segments e ! nat (currentIndex + 1)) True w
         else Some (setPlayingSegmentId None (setPlaybackState IDLE w)))"
| "onEnded n atob cl w =
     (if autoPlayNext cl then playNextSegment n atob (env cl) (seg_id (segment cl)) w
      else Some (setPlaybackState IDLE (setPlayingSegmentId None w)))"
  by pat_completeness auto

text \<open>
  Termination: the fuel drops where \<^verbatim>\<open>playPcmData\<close> calls \<open>onEnded\<close>; every other call
  keeps it and moves along the cycle \<open>onEnded\<close>, \<open>playNextSegment\<close>, \<open>playSegment\<close>,
  \<open>playPcmData\<close>.
\<close>

termination
  apply (relation "measures
     [case_sum (case_sum (\<lambda>(n, r). n) (\<lambda>(n, r). n)) (case_sum (\<lambda>(n, r). n) (\<lambda>(n, r). n)),
      case_sum (case_sum (\<lambda>x. 0) (\<lambda>x. 1)) (case_sum (\<lambda>x. 2) (\<lambda>x. 3))]")
  apply simp_all
  done

declare playPcmData.simps [simp del] playSegment.simps [simp del]
  playNextSegment.simps [simp del] onEnded.simps [simp del]

text \<open>
  What \<^verbatim>\<open>generateSpeech\<close> makes of the response: \<open>audioData\<close> is the inline data of the
  first part, \<open>None\<close> when the request failed or the response holds none; an empty
  string is falsy and throws as well.
\<close>

definition generateSpeech :: "string option \<Rightarrow> js_error + string" where
  "generateSpeech audioData =
     (case audioData of
        None \<Rightarrow> Inl SpeechError
      | Some d \<Rightarrow> if d = [] then Inl SpeechError else Inr d)"

text \<open>
  The rest of \<^verbatim>\<open>playSegment\<close> after its \<^verbatim>\<open>await\<close>, for the call with index \<open>k\<close>: the cache
  update, \<^verbatim>\<open>setPlaybackState(PLAYING)\<close> and \<^verbatim>\<open>playPcmData\<close>, or the \<^verbatim>\<open>catch\<close> block when
  \<^verbatim>\<open>generateSpeech\<close> threw.
\<close>

definition playSegment_resume ::
    "nat \<Rightarrow> (string \<Rightarrow> nat list option) \<Rightarrow> nat \<Rightarrow> string option \<Rightarrow> world \<Rightarrow> world option" where
  "playSegment_resume n atob k audioData w =
     (if k < length (calls w) \<and> \<not> resolved (calls w ! k) then
        (let cl = continuation (calls w ! k);
             w1 = w\<lparr>calls := (calls w)[k := (calls w ! k)\<lparr>resolved := True\<rparr>]\<rparr>
         in case generateSpeech audioData of
              Inl err \<Rightarrow> Some (setPlayingSegmentId None (setPlaybackState IDLE w1))
            | Inr pcmBase64 \<Rightarrow>
                playPcmData n atob pcmBase64 cl
                  (setPlaybackState PLAYING
                    (setAudioCache (\<lambda>prev. prev(seg_id (segment cl) \<mapsto> pcmBase64)) w1)))
      else Some w)"

text \<open>
  The \<^verbatim>\<open>ended\<close> event of node \<open>h\<close>, dispatched once, when the node has played to its end
  or after \<^verbatim>\<open>stop()\<close>: the handler installed by \<^verbatim>\<open>playPcmData\<close> clears the ref and calls
  \<^verbatim>\<open>onEnded\<close>. A node whose handler was set to \<^verbatim>\<open>null\<close> runs nothing.
\<close>

definition source_ended ::
    "nat \<Rightarrow> (string \<Rightarrow> nat list option) \<Rightarrow> nat \<Rightarrow> world \<Rightarrow> world option" where
  "source_ended n atob h w =
     (if h < length (sources w) \<and> \<not> ended (sources w ! h) then
        (let w1 = w\<lparr>sources := (sources w)[h := (sources w ! h)\<lparr>ended := True\<rparr>]\<rparr>
         in case onended (sources w ! h) of
              None \<Rightarrow> Some w1
            | Some cl \<Rightarrow> onEnded n atob cl (w1\<lparr>activeSourceRef := None\<rparr>))
      else Some w)"

definition handlePlayPause ::
    "nat \<Rightarrow> (string \<Rightarrow> nat list option) \<Rightarrow> react_state \<Rightarrow> TextSegment \<Rightarrow> world \<Rightarrow> world option" where
  "handlePlayPause n atob e seg w =
     (if playingSegmentId e = Some (seg_id seg) \<and> playbackState e = PLAYING
      then Some (stopPlayback w)
      else playSegment n atob e seg False w)"

definition handlePlayAll ::
    "nat \<Rightarrow> (string \<Rightarrow> nat list option) \<Rightarrow> react_state \<Rightarrow> world \<Rightarrow> world option" where
  "handlePlayAll n atob e w =
     (if length (segments e) > 0 then playSegment n atob e (segments e ! 0) True w
      else Some w)"

text \<open>
  \<^verbatim>\<open>String.prototype.trim\<close> on the code units a \<open>char\<close> can hold: the white space and
  line terminators below 256.
\<close>

definition js_whitespace :: "char \<Rightarrow> bool" where
  "js_whitespace c = ((of_char c :: nat) \<in> {9, 10, 11, 12, 13, 32, 160})"

definition js_trim :: "string \<Rightarrow> string" where
  "js_trim s = rev (dropWhile js_whitespace (rev (dropWhile js_whitespace s)))"

text \<open>\<^verbatim>\<open>handleProcess\<close> up to its \<^verbatim>\<open>await\<close>, and the rest of it when \<^verbatim>\<open>analyzeText\<close> settles.\<close>

definition handleProcess :: "react_state \<Rightarrow> world \<Rightarrow> world" where
  "handleProcess e w =
     (if js_trim (inputText e) = [] then w
      else (setAudioCache (\<lambda>prev. Map.empty)
             (setSegments [] (setIsProcessing True (stopPlayback w))))
           \<lparr>analyses := Suc (analyses w)\<rparr>)"

definition handleProcess_resume :: "TextSegment list option \<Rightarrow> world \<Rightarrow> world" where
  "handleProcess_resume result w =
     (if analyses w = 0 then w
      else (setIsProcessing False
             (case result of Some segs \<Rightarrow> setSegments segs w | None \<Rightarrow> w))
           \<lparr>analyses := analyses w - 1\<rparr>)"

definition handleClear :: "world \<Rightarrow> world" where
  "handleClear w =
     setAudioCache (\<lambda>prev. Map.empty) (setSegments [] (setInputText [] (stopPlayback w)))"

text \<open>
  The effect on \<^verbatim>\<open>[selectedVoice]\<close> runs after the render in which the voice changed;
  choosing the voice already selected renders nothing. On mount the effect finds an
  empty cache and no source, and changes nothing.
\<close>

definition voice_effect :: "world \<Rightarrow> world" where
  "voice_effect w = stopPlayback (setAudioCache (\<lambda>prev. Map.empty) w)"

definition voiceChanged :: "string \<Rightarrow> world \<Rightarrow> world" where
  "voiceChanged v w =
     (if v = selectedVoice (st w) then w else voice_effect (setSelectedVoice v w))"

section \<open>Events\<close>

text \<open>
  What can happen to the component: a click on the button of card \<open>i\<close>, on Read All,
  on Stop, on Start Analysis or on the clear button, typing into the text area, a
  choice in the voice selector, the settling of a \<^verbatim>\<open>generateSpeech\<close> or \<^verbatim>\<open>analyzeText\<close>
  promise, and the natural end of a source node.
\<close>

datatype event =
    PlayPause nat
  | PlayAll
  | Stop
  | SpeechResponse nat "string option"
  | Ended nat
  | VoiceSelected string
  | InputChanged string
  | Process
  | AnalysisResponse "TextSegment list option"
  | Clear

text \<open>
  The markup decides which controls exist. The Stop button replaces Read All while
  \<^verbatim>\<open>playingSegmentId && playbackState !== IDLE\<close>; a card's button is disabled while
  that card is loading; Start Analysis is disabled while processing or on blank input;
  the clear button is shown for a non-empty input; cards and the two buttons above them
  are rendered only for a non-empty segment list.
\<close>

definition stopShown :: "react_state \<Rightarrow> bool" where
  "stopShown e =
     ((case playingSegmentId e of None \<Rightarrow> False | Some i \<Rightarrow> i \<noteq> []) \<and> playbackState e \<noteq> IDLE)"

definition isLoading :: "react_state \<Rightarrow> TextSegment \<Rightarrow> bool" where
  "isLoading e seg =
     (playingSegmentId e = Some (seg_id seg) \<and> playbackState e = LOADING_AUDIO)"

text \<open>
  One event, handled by the functions of the current render (\<open>env = st w\<close>). An event
  on a control that is disabled or not rendered, or for a promise that is not pending,
  changes nothing.
\<close>

definition step :: "nat \<Rightarrow> (string \<Rightarrow> nat list option) \<Rightarrow> event \<Rightarrow> world \<Rightarrow> world option" where
  "step n atob ev w =
     (let e = st w in
      case ev of
        PlayPause i \<Rightarrow>
          if i < length (segments e) \<and> \<not> isLoading e (segments e ! i)
          then handlePlayPause n atob e (segments e ! i) w else Some w
      | PlayAll \<Rightarrow>
          if segments e \<noteq> [] \<and> \<not> stopShown e then handlePlayAll n atob e w else Some w
      | Stop \<Rightarrow>
          if segments e \<noteq> [] \<and> stopShown e then Some (stopPlayback w) else Some w
      | SpeechResponse k audioData \<Rightarrow> playSegment_resume n atob k audioData w
      | Ended h \<Rightarrow> source_ended n atob h w
      | VoiceSelected v \<Rightarrow> Some (voiceChanged v w)
      | InputChanged v \<Rightarrow> Some (setInputText v w)
      | Process \<Rightarrow>
          if \<not> isProcessing e \<and> js_trim (inputText e) \<noteq> [] then Some (handleProcess e w)
          else Some w
      | AnalysisResponse result \<Rightarrow> Some (handleProcess_resume result w)
      | Clear \<Rightarrow> if inputText e \<noteq> [] then Some (handleClear w) else Some w)"

fun run :: "nat \<Rightarrow> (string \<Rightarrow> nat list option) \<Rightarrow> event list \<Rightarrow> world \<Rightarrow> world option" where
  "run n atob [] w = Some w"
| "run n atob (ev # evs) w =
     (case step n atob ev w of None \<Rightarrow> None | Some w' \<Rightarrow> run n atob evs w')"

section \<open>Predicates on states\<close>

text \<open>A node is live, that is audible, from its start until it is stopped or has ended.\<close>

definition live :: "source_node \<Rightarrow> bool" where
  "live s = (\<not> stopped s \<and> \<not> ended s)"

text \<open>
  The ref, when set, points to a node of the store; a live node is the one the ref
  points to; a node has been stopped exactly when its handler has been removed.
\<close>

definition sources_ok :: "world \<Rightarrow> bool" where
  "sources_ok w =
     ((\<forall>h. activeSourceRef w = Some h \<longrightarrow> h < length (sources w)) \<and>
      (\<forall>h < length (sources w).
         (live (sources w ! h) \<longrightarrow> activeSourceRef w = Some h) \<and>
         (stopped (sources w ! h) = (onended (sources w ! h) = None))))"

text \<open>While the phase is \<open>PLAYING\<close> the ref points to a live node.\<close>

definition playing_ok :: "world \<Rightarrow> bool" where
  "playing_ok w =
     (playbackState (st w) = PLAYING \<longrightarrow>
        (\<exists>h. activeSourceRef w = Some h \<and> h < length (sources w) \<and> live (sources w ! h)))"

definition good :: "world \<Rightarrow> bool" where
  "good w = (sources_ok w \<and> playing_ok w)"

definition no_live :: "world \<Rightarrow> bool" where
  "no_live w = (\<forall>h < length (sources w). \<not> live (sources w ! h))"

text \<open>
  The node that was active before a play function ran is either still the active one,
  or has been stopped with its handler removed.
\<close>

definition replaced_ok :: "world \<Rightarrow> world \<Rightarrow> bool" where
  "replaced_ok w w' =
     (\<forall>h. activeSourceRef w = Some h \<and> h < length (sources w) \<longrightarrow>
        h < length (sources w') \<and>
        (activeSourceRef w' = Some h \<and> sources w' ! h = sources w ! h \<or>
         stopped (sources w' ! h) \<and> onended (sources w' ! h) = None))"

section \<open>Responses that fill the cache\<close>



section \<open>A chain without failures\<close>

text \<open>
  What the environment does during a chain over a list of segments in which nothing
  fails: for each segment in turn, the synthesis response arrives when a call was made,
  and the node plays to its end. \<open>k\<close> and \<open>h\<close> are the indices of the next call and of the
  next node; \<open>tts\<close> gives the payload that the service returns for a segment.
\<close>

fun chain_events ::
    "(string \<Rightarrow> string option) \<Rightarrow> (TextSegment \<Rightarrow> string) \<Rightarrow> nat \<Rightarrow> nat \<Rightarrow> TextSegment list \<Rightarrow>
     event list" where
  "chain_events cache tts k h [] = []"
| "chain_events cache tts k h (s # ss) =
     (case cached cache (seg_id s) of
        Some p \<Rightarrow> Ended h # chain_events cache tts k (Suc h) ss
      | None \<Rightarrow> SpeechResponse k (Some (tts s)) # Ended h # chain_events cache tts (Suc k) (Suc h) ss)"

text \<open>The payload played for a segment: the cached one, or the one the service returns.\<close>

definition payload_for :: "(string \<Rightarrow> string option) \<Rightarrow> (TextSegment \<Rightarrow> string) \<Rightarrow> TextSegment \<Rightarrow> string" where
  "payload_for cache tts s = (case cached cache (seg_id s) of Some p \<Rightarrow> p | None \<Rightarrow> tts s)"

text \<open>
  The node of a segment that a chain of render \<open>e\<close> has played to its end, and the
  synthesis call the chain has made for it.
\<close>

definition played_node :: "react_state \<Rightarrow> (TextSegment \<Rightarrow> AudioBuffer) \<Rightarrow> TextSegment \<Rightarrow> source_node" where
  "played_node e decoded s =
     \<lparr>buffer = decoded s, onended = Some \<lparr>segment = s, autoPlayNext = True, env = e\<rparr>,
      stopped = False, ended = True\<rparr>"

definition made_call :: "react_state \<Rightarrow> TextSegment \<Rightarrow> speech_call" where
  "made_call e s =
     \<lparr>call_text = original s, call_voiceName = selectedVoice e,
      continuation = \<lparr>segment = s, autoPlayNext = True, env = e\<rparr>, resolved = True\<rparr>"

text \<open>The store after \<^verbatim>\<open>playPcmData\<close> has stopped the node that the ref \<open>r\<close> points to.\<close>

definition stopped_sources :: "nat option \<Rightarrow> source_node list \<Rightarrow> source_node list" where
  "stopped_sources r xs =
     (case r of Some h \<Rightarrow> xs[h := (xs ! h)\<lparr>onended := None, stopped := True\<rparr>] | None \<Rightarrow> xs)"

section \<open>Example data\<close>

text \<open>The bytes of the samples 0, 16384, -16384 and 32767, low byte first.\<close>

definition pcm_example :: "byte list" where
  "pcm_example = [0x00, 0x00, 0x00, 0x40, 0x00, 0xC0, 0xFF, 0x7F]"

text \<open>
  Two segments, and the events that bring them on screen: type a text, press Start
  Analysis, and the segmentation service answers.
\<close>

definition segA :: TextSegment where
  "segA = \<lparr>seg_id = ''seg-1'', original = ''Reading is essential.'', translation = ''Lire est essentiel.''\<rparr>"

definition segB :: TextSegment where
  "segB = \<lparr>seg_id = ''seg-2'', original = ''Knowledge is power.'', translation = ''Savoir est pouvoir.''\<rparr>"

definition analysed :: "event list" where
  "analysed = [InputChanged ''Reading is essential. Knowledge is power.'', Process,
     AnalysisResponse (Some [segA, segB])]"






definition played_second :: "event list" where
  "played_second = analysed @ [PlayAll, PlayPause 1, SpeechResponse 1 (Some ''AQA=''), Ended 0]"

definition chain_refetch :: "event list" where
  "chain_refetch = played_second @ [SpeechResponse 0 (Some ''AAA=''), Ended 1]"

definition both_cached :: "event list" where
  "both_cached = analysed @ [PlayPause 1, SpeechResponse 0 (Some ''AQA=''), PlayPause 0,
     SpeechResponse 1 (Some ''AAA='')]"


text \<open>
  An example chain: the second segment has been played and is cached, the first is not;
  the service returns one sample of value 0 for the first segment.
\<close>

definition second_cached :: "event list" where
  "second_cached = analysed @ [PlayPause 1, SpeechResponse 0 (Some ''AQA=''), Ended 0]"

definition example_tts :: "TextSegment \<Rightarrow> string" where
  "example_tts s = (if seg_id s = ''seg-1'' then ''AAA='' else ''AQA='')"

definition example_decoded :: "TextSegment \<Rightarrow> AudioBuffer" where
  "example_decoded s =
     \<lparr>numberOfChannels = 1, sampleRate = 24000,
      channelData = (if seg_id s = ''seg-1'' then [0] else [1 / 32768])\<rparr>"

section \<open>The decoder\<close>

lemma uint_ucast_byte: "uint (ucast (b :: byte) :: 16 word) = uint b"
  by (simp add: uint_up_ucast is_up)

lemma uint_byte_bound: "uint (b :: byte) < 256"
  using uint_bounded [of b] by simp

lemma uint_int16_le: "uint (int16_le lo hi) = uint lo + 256 * uint hi"
proof -
  have "uint lo < 256" "uint hi < 256" "0 \<le> uint lo" "0 \<le> uint hi"
    by (simp_all add: uint_byte_bound)
  then have "(uint lo + 256 * uint hi) mod 65536 = uint lo + 256 * uint hi"
    by simp
  then show ?thesis
    by (simp add: int16_le_def uint_word_ariths uint_ucast_byte mod_simps)
qed

lemma signed_take_bit_15:
  fixes u :: int
  assumes "0 \<le> u" and "u < 65536"
  shows "signed_take_bit 15 u = (if u < 32768 then u else u - 65536)"
proof (cases "u < 32768")
  case True
  with assms have "(u + 32768) mod 65536 = u + 32768" by simp
  with True show ?thesis
    by (simp add: signed_take_bit_eq_take_bit_shift take_bit_eq_mod)
next
  case False
  have "u + 32768 = u - 32768 + 65536" by simp
  then have "(u + 32768) mod 65536 = (u - 32768 + 65536) mod 65536" by (simp only:)
  also have "\<dots> = (u - 32768) mod 65536" by (simp only: mod_add_self2)
  also have "\<dots> = u - 32768" using assms False by simp
  finally show ?thesis using False
    by (simp add: signed_take_bit_eq_take_bit_shift take_bit_eq_mod)
qed

lemma sint_int16_le: "sint (int16_le lo hi) = signed16 lo hi"
proof -
  have b: "uint lo < 256" "uint hi < 256" "0 \<le> uint lo" "0 \<le> uint hi"
    by (simp_all add: uint_byte_bound)
  have "sint (int16_le lo hi) = signed_take_bit 15 (uint lo + 256 * uint hi)"
    by (simp add: sint_uint uint_int16_le)
  also have "\<dots> = signed16 lo hi"
    unfolding signed16_def Let_def
    by (rule signed_take_bit_15) (use b in simp_all)
  finally show ?thesis .
qed

lemma length_Int16Array: "length (Int16Array data) = length data div 2"
  by (induction data rule: Int16Array.induct) simp_all

lemma nth_Int16Array:
  "i < length data div 2 \<Longrightarrow> Int16Array data ! i = int16_le (data ! (2 * i)) (data ! (2 * i + 1))"
proof (induction data arbitrary: i rule: Int16Array.induct)
  case (1 lo hi rest)
  then show ?case by (cases i) simp_all
qed simp_all

text \<open>
  Claim C5. For every non-empty byte sequence of even length, \<open>decodeAudioData\<close> succeeds;
  the buffer holds one sample for each pair of bytes, in the order of the input, and
  sample \<open>i\<close> is the signed 16-bit little-endian value of bytes \<open>2i\<close> and \<open>2i + 1\<close>
  divided by 32768, with no clipping and no rescaling.
\<close>

theorem decodeAudioData_samples:
  assumes "even (length data)" and "data \<noteq> []"
  shows "\<exists>buf. decodeAudioData data = Inr buf \<and>
           length (channelData buf) = length data div 2 \<and>
           (\<forall>i < length data div 2.
              channelData buf ! i =
                real_of_int (signed16 (data ! (2 * i)) (data ! (2 * i + 1))) / 32768)"
proof -
  from assms have "length data div 2 \<noteq> 0"
    by (cases data) (auto elim: evenE)
  then have "Int16Array data \<noteq> []"
    using length_Int16Array [of data] by auto
  with assms show ?thesis
    by (simp add: decodeAudioData_def Let_def length_Int16Array nth_Int16Array sint_int16_le
        del: of_int_sint)
qed

text \<open>
  The samples 0, 16384, -16384 and 32767 decode to 0, 1/2, -1/2 and 32767/32768, in
  that order.
\<close>

theorem decodeAudioData_samples_witness:
  "even (length pcm_example) \<and> pcm_example \<noteq> [] \<and>
   (\<exists>buf. decodeAudioData pcm_example = Inr buf \<and> length (channelData buf) = 4 \<and>
      channelData buf ! 0 = 0 \<and> channelData buf ! 1 = 1 / 2 \<and>
      channelData buf ! 2 = - 1 / 2 \<and> channelData buf ! 3 = 32767 / 32768)"
proof -
  have e: "even (length pcm_example)" and n: "pcm_example \<noteq> []"
    by (simp_all add: pcm_example_def)
  from decodeAudioData_samples [OF e n] obtain buf where
    d: "decodeAudioData pcm_example = Inr buf" and
    l: "length (channelData buf) = length pcm_example div 2" and
    v: "\<forall>i < length pcm_example div 2.
          channelData buf ! i =
            real_of_int (signed16 (pcm_example ! (2 * i)) (pcm_example ! (2 * i + 1))) / 32768"
    by blast
  have "channelData buf ! 0 = 0" "channelData buf ! 1 = 1 / 2"
    "channelData buf ! 2 = - 1 / 2" "channelData buf ! 3 = 32767 / 32768"
    using v [rule_format, of 0] v [rule_format, of 1] v [rule_format, of 2] v [rule_format, of 3]
    by (simp_all add: pcm_example_def signed16_def)
  with e n d l show ?thesis by (simp add: pcm_example_def)
qed

section \<open>An invariant of the source nodes\<close>

lemmas setter_defs = setInputText_def setSegments_def setIsProcessing_def setPlaybackState_def
  setPlayingSegmentId_def setSelectedVoice_def setAudioCache_def

lemma sources_ok_st [simp]: "sources_ok (w\<lparr>st := s\<rparr>) = sources_ok w"
  by (simp add: sources_ok_def)

lemma sources_ok_calls [simp]: "sources_ok (w\<lparr>calls := c\<rparr>) = sources_ok w"
  by (simp add: sources_ok_def)

lemma sources_ok_analyses [simp]: "sources_ok (w\<lparr>analyses := c\<rparr>) = sources_ok w"
  by (simp add: sources_ok_def)

lemma sources_ok_ctx [simp]: "sources_ok (w\<lparr>audioContextRef := c\<rparr>) = sources_ok w"
  by (simp add: sources_ok_def)

lemma sources_ok_setters [simp]:
  "sources_ok (setInputText a w) = sources_ok w"
  "sources_ok (setSegments b w) = sources_ok w"
  "sources_ok (setIsProcessing c w) = sources_ok w"
  "sources_ok (setPlaybackState d w) = sources_ok w"
  "sources_ok (setPlayingSegmentId e w) = sources_ok w"
  "sources_ok (setSelectedVoice f w) = sources_ok w"
  "sources_ok (setAudioCache g w) = sources_ok w"
  "sources_ok (call_generateSpeech cl w) = sources_ok w"
  "sources_ok (initAudioContext w) = sources_ok w"
  by (simp_all add: setter_defs call_generateSpeech_def initAudioContext_def)

lemma sources_okI:
  assumes "\<And>h. activeSourceRef w = Some h \<Longrightarrow> h < length (sources w)"
    and "\<And>h. h < length (sources w) \<Longrightarrow> live (sources w ! h) \<Longrightarrow> activeSourceRef w = Some h"
    and "\<And>h. h < length (sources w) \<Longrightarrow>
           stopped (sources w ! h) = (onended (sources w ! h) = None)"
  shows "sources_ok w"
  unfolding sources_ok_def using assms by blast

lemma sources_okD:
  assumes "sources_ok w"
  shows "activeSourceRef w = Some h \<Longrightarrow> h < length (sources w)"
    and "h < length (sources w) \<Longrightarrow> live (sources w ! h) \<Longrightarrow> activeSourceRef w = Some h"
    and "h < length (sources w) \<Longrightarrow> stopped (sources w ! h) = (onended (sources w ! h) = None)"
  using assms unfolding sources_ok_def by blast+

text \<open>Stopping the node the ref points to leaves no live node.\<close>

lemma disarm_active:
  assumes ok: "sources_ok w" and ref: "activeSourceRef w = Some h"
  shows "sources_ok (disarm_and_stop h w)" "no_live (disarm_and_stop h w)"
proof -
  have len: "h < length (sources w)" using sources_okD(1) [OF ok ref] .
  show "sources_ok (disarm_and_stop h w)"
  proof (rule sources_okI)
    fix i assume "activeSourceRef (disarm_and_stop h w) = Some i"
    then show "i < length (sources (disarm_and_stop h w))"
      using sources_okD(1) [OF ok, of i] by (simp add: disarm_and_stop_def)
  next
    fix i assume "i < length (sources (disarm_and_stop h w))"
      and "live (sources (disarm_and_stop h w) ! i)"
    then show "activeSourceRef (disarm_and_stop h w) = Some i"
      using sources_okD(2) [OF ok, of i]
      by (cases "i = h") (simp_all add: disarm_and_stop_def live_def)
  next
    fix i assume "i < length (sources (disarm_and_stop h w))"
    then show "stopped (sources (disarm_and_stop h w) ! i) =
        (onended (sources (disarm_and_stop h w) ! i) = None)"
      using sources_okD(3) [OF ok, of i]
      by (cases "i = h") (simp_all add: disarm_and_stop_def)
  qed
  show "no_live (disarm_and_stop h w)"
    unfolding no_live_def
  proof (intro allI impI)
    fix i assume "i < length (sources (disarm_and_stop h w))"
    then show "\<not> live (sources (disarm_and_stop h w) ! i)"
      using sources_okD(2) [OF ok, of i] ref
      by (cases "i = h") (auto simp: disarm_and_stop_def live_def)
  qed
qed

lemma sources_ok_clear_ref:
  assumes "sources_ok w" "no_live w"
  shows "sources_ok (w\<lparr>activeSourceRef := None\<rparr>)"
proof (rule sources_okI)
  fix h assume "h < length (sources (w\<lparr>activeSourceRef := None\<rparr>))"
    and "live (sources (w\<lparr>activeSourceRef := None\<rparr>) ! h)"
  with assms(2) show "activeSourceRef (w\<lparr>activeSourceRef := None\<rparr>) = Some h"
    by (simp add: no_live_def)
next
  fix h assume "h < length (sources (w\<lparr>activeSourceRef := None\<rparr>))"
  then show "stopped (sources (w\<lparr>activeSourceRef := None\<rparr>) ! h) =
      (onended (sources (w\<lparr>activeSourceRef := None\<rparr>) ! h) = None)"
    using sources_okD(3) [OF assms(1), of h] by simp
qed simp

lemma no_live_if_no_ref:
  assumes "sources_ok w" "activeSourceRef w = None"
  shows "no_live w"
  unfolding no_live_def
proof (intro allI impI)
  fix h assume "h < length (sources w)"
  then show "\<not> live (sources w ! h)"
    using sources_okD(2) [OF assms(1), of h] assms(2) by auto
qed

lemma sources_ok_stopPlayback: "sources_ok w \<Longrightarrow> sources_ok (stopPlayback w)"
  by (cases "activeSourceRef w")
     (simp_all add: stopPlayback_def disarm_active sources_ok_clear_ref)

lemma playing_ok_not_playing: "playbackState (st w) \<noteq> PLAYING \<Longrightarrow> playing_ok w"
  by (simp add: playing_ok_def)

lemma st_stopPlayback [simp]:
  "st (stopPlayback w) = (st w)\<lparr>playingSegmentId := None, playbackState := IDLE\<rparr>"
  by (cases "activeSourceRef w") (simp_all add: stopPlayback_def setter_defs disarm_and_stop_def)

lemma activeSourceRef_stopPlayback [simp]: "activeSourceRef (stopPlayback w) = None"
  by (cases "activeSourceRef w") (simp_all add: stopPlayback_def setter_defs disarm_and_stop_def)

lemma calls_stopPlayback [simp]: "calls (stopPlayback w) = calls w"
  by (cases "activeSourceRef w") (simp_all add: stopPlayback_def setter_defs disarm_and_stop_def)

lemma length_sources_stopPlayback [simp]: "length (sources (stopPlayback w)) = length (sources w)"
  by (cases "activeSourceRef w") (simp_all add: stopPlayback_def setter_defs disarm_and_stop_def)

lemma playing_ok_stopPlayback: "playing_ok (stopPlayback w)"
  by (simp add: playing_ok_def)

lemma good_stopPlayback: "sources_ok w \<Longrightarrow> good (stopPlayback w)"
  by (simp add: good_def sources_ok_stopPlayback playing_ok_stopPlayback)


text \<open>Appending a fresh node and pointing the ref to it, when no node is live.\<close>

lemma sources_ok_start:
  assumes ok: "sources_ok w" and nl: "no_live w"
  shows "sources_ok (w\<lparr>sources := sources w @ [\<lparr>buffer = b, onended = Some cl, stopped = False, ended = False\<rparr>],
                       activeSourceRef := Some (length (sources w))\<rparr>)"
    (is "sources_ok ?w'")
proof (rule sources_okI)
  fix h assume "activeSourceRef ?w' = Some h"
  then show "h < length (sources ?w')" by auto
next
  fix h assume "h < length (sources ?w')" and l: "live (sources ?w' ! h)"
  then have "h = length (sources w) \<or> h < length (sources w)" by auto
  then show "activeSourceRef ?w' = Some h"
  proof
    assume "h < length (sources w)"
    with l nl show ?thesis by (simp add: no_live_def nth_append)
  qed simp
next
  fix h assume "h < length (sources ?w')"
  then have "h = length (sources w) \<or> h < length (sources w)" by auto
  then show "stopped (sources ?w' ! h) = (onended (sources ?w' ! h) = None)"
  proof
    assume "h < length (sources w)"
    then show ?thesis using sources_okD(3) [OF ok, of h] by (simp add: nth_append)
  qed simp
qed

lemma playing_ok_start:
  "playing_ok (w\<lparr>sources := sources w @ [\<lparr>buffer = b, onended = Some cl, stopped = False, ended = False\<rparr>],
                       activeSourceRef := Some (length (sources w))\<rparr>)"
  by (simp add: playing_ok_def live_def)


lemma good_idle:
  "sources_ok w \<Longrightarrow> good (setPlaybackState IDLE (setPlayingSegmentId None w))"
  "sources_ok w \<Longrightarrow> good (setPlayingSegmentId None (setPlaybackState IDLE w))"
  by (simp_all add: good_def playing_ok_def setter_defs)

lemma good_loading:
  "sources_ok w \<Longrightarrow> good (call_generateSpeech cl (setPlaybackState LOADING_AUDIO w))"
  by (simp add: good_def playing_ok_def setter_defs call_generateSpeech_def)

lemma stopped_old:
  assumes "sources_ok w"
  shows "sources_ok (case activeSourceRef w of Some h \<Rightarrow> disarm_and_stop h w | None \<Rightarrow> w)"
    and "no_live (case activeSourceRef w of Some h \<Rightarrow> disarm_and_stop h w | None \<Rightarrow> w)"
  using assms by (auto split: option.splits simp: disarm_active no_live_if_no_ref)

lemma play_functions_good:
  "sources_ok w \<Longrightarrow> playPcmData n atob b cl w = Some w' \<Longrightarrow> good w'"
  "sources_ok w \<Longrightarrow> playSegment n atob e seg auto w = Some w' \<Longrightarrow> good w'"
  "sources_ok w \<Longrightarrow> playNextSegment n atob e cid w = Some w' \<Longrightarrow> good w'"
  "sources_ok w \<Longrightarrow> onEnded n atob cl w = Some w' \<Longrightarrow> good w'"
proof (induction n atob b cl w and n atob e seg auto w and n atob e cid w and n atob cl w
    arbitrary: w' and w' and w' and w'
    rule: playPcmData_playSegment_playNextSegment_onEnded.induct)
  case (1 n atob base64Data cl w)
  let ?w2 = "case activeSourceRef (initAudioContext w) of
               Some h \<Rightarrow> disarm_and_stop h (initAudioContext w) | None \<Rightarrow> initAudioContext w"
  from "1.prems"(1) have ok: "sources_ok ?w2" and nl: "no_live ?w2"
    using stopped_old [of "initAudioContext w"] by simp_all
  show ?case
  proof (cases "decodePcm atob base64Data")
    case (Inr buf)
    with "1.prems"(2) have "w' = ?w2\<lparr>sources := sources ?w2 @
        [\<lparr>buffer = buf, onended = Some cl, stopped = False, ended = False\<rparr>],
        activeSourceRef := Some (length (sources ?w2))\<rparr>"
      by (simp add: playPcmData.simps Let_def)
    then show ?thesis
      using sources_ok_start [OF ok nl] playing_ok_start [of ?w2] by (simp add: good_def)
  next
    case (Inl err)
    show ?thesis
    proof (cases n)
      case 0
      with Inl "1.prems"(2) show ?thesis by (simp add: playPcmData.simps Let_def)
    next
      case (Suc m)
      with Inl "1.prems"(2) have "onEnded m atob cl ?w2 = Some w'"
        by (simp add: playPcmData.simps Let_def)
      with "1.IH" [OF refl refl Inl Suc ok] show ?thesis .
    qed
  qed
next
  case (2 n atob e seg auto w)
  show ?case
  proof (cases "cached (audioCache e) (seg_id seg)")
    case None
    with "2.prems" show ?thesis
      by (auto simp: playSegment.simps Let_def good_loading)
  next
    case (Some p)
    with "2.prems"(2) have "playPcmData n atob p \<lparr>segment = seg, autoPlayNext = auto, env = e\<rparr>
        (setPlaybackState PLAYING (setPlayingSegmentId (Some (seg_id seg)) w)) = Some w'"
      by (simp add: playSegment.simps Let_def)
    with "2.IH" [OF refl refl Some] "2.prems"(1) show ?thesis by simp
  qed
next
  case (3 n atob e currentId w)
  let ?i = "findIndex (\<lambda>s. seg_id s = currentId) (segments e)"
  show ?case
  proof (cases "0 \<le> ?i \<and> ?i < int (length (segments e)) - 1")
    case True
    with "3.prems"(2) have "playSegment n atob e (segments e ! nat (?i + 1)) True w = Some w'"
      by (simp add: playNextSegment.simps Let_def)
    with "3.IH" [OF refl True "3.prems"(1)] show ?thesis .
  next
    case False
    with "3.prems"(2) have "w' = setPlayingSegmentId None (setPlaybackState IDLE w)"
      by (simp add: playNextSegment.simps Let_def)
    with "3.prems"(1) show ?thesis by (simp add: good_idle)
  qed
next
  case (4 n atob cl w)
  show ?case
  proof (cases "autoPlayNext cl")
    case True
    with "4.prems"(2) have "playNextSegment n atob (env cl) (seg_id (segment cl)) w = Some w'"
      by (simp add: onEnded.simps)
    with "4.IH" [OF True "4.prems"(1)] show ?thesis .
  next
    case False
    with "4.prems"(2) have "w' = setPlaybackState IDLE (setPlayingSegmentId None w)"
      by (simp add: onEnded.simps)
    with "4.prems"(1) show ?thesis by (simp add: good_idle)
  qed
qed



lemma playSegment_resume_good:
  assumes "good w" "playSegment_resume n atob k audioData w = Some w'"
  shows "good w'"
proof (cases "k < length (calls w) \<and> \<not> resolved (calls w ! k)")
  case False
  with assms show ?thesis by (auto simp: playSegment_resume_def)
next
  case True
  let ?w1 = "w\<lparr>calls := (calls w)[k := (calls w ! k)\<lparr>resolved := True\<rparr>]\<rparr>"
  from assms(1) have ok: "sources_ok ?w1" by (simp add: good_def)
  show ?thesis
  proof (cases "generateSpeech audioData")
    case (Inl err)
    with True assms(2) have "w' = setPlayingSegmentId None (setPlaybackState IDLE ?w1)"
      by (simp add: playSegment_resume_def Let_def)
    with ok show ?thesis by (simp add: good_idle)
  next
    case (Inr p)
    with True assms(2) have "playPcmData n atob p (continuation (calls w ! k))
        (setPlaybackState PLAYING
          (setAudioCache (\<lambda>prev. prev(seg_id (segment (continuation (calls w ! k))) \<mapsto> p)) ?w1)) = Some w'"
      by (simp add: playSegment_resume_def Let_def)
    moreover from ok have "sources_ok (setPlaybackState PLAYING
          (setAudioCache (\<lambda>prev. prev(seg_id (segment (continuation (calls w ! k))) \<mapsto> p)) ?w1))"
      by simp
    ultimately show ?thesis
      using play_functions_good(1) by blast
  qed
qed

lemma sources_ok_ended_live:
  assumes ok: "sources_ok w" and h: "h < length (sources w)" and l: "live (sources w ! h)"
  shows "sources_ok (w\<lparr>sources := (sources w)[h := (sources w ! h)\<lparr>ended := True\<rparr>],
                       activeSourceRef := None\<rparr>)" (is "sources_ok ?w'")
proof (rule sources_okI)
  have ref: "activeSourceRef w = Some h" using sources_okD(2) [OF ok h l] .
  fix i assume i: "i < length (sources ?w')" and li: "live (sources ?w' ! i)"
  then have "i \<noteq> h" by (auto simp: live_def)
  with i li have "live (sources w ! i)" "i < length (sources w)" by simp_all
  with sources_okD(2) [OF ok, of i] ref \<open>i \<noteq> h\<close> show "activeSourceRef ?w' = Some i" by simp
next
  fix i assume "i < length (sources ?w')"
  then show "stopped (sources ?w' ! i) = (onended (sources ?w' ! i) = None)"
    using sources_okD(3) [OF ok, of i] by (cases "i = h") simp_all
qed simp

lemma good_ended_stopped:
  assumes g: "good w" and h: "h < length (sources w)" and s: "stopped (sources w ! h)"
  shows "good (w\<lparr>sources := (sources w)[h := (sources w ! h)\<lparr>ended := True\<rparr>]\<rparr>)"
    (is "good ?w'")
proof -
  from g have ok: "sources_ok w" and pl: "playing_ok w" by (simp_all add: good_def)
  have "sources_ok ?w'"
  proof (rule sources_okI)
    fix i assume "activeSourceRef ?w' = Some i"
    then show "i < length (sources ?w')" using sources_okD(1) [OF ok, of i] by simp
  next
    fix i assume i: "i < length (sources ?w')" and li: "live (sources ?w' ! i)"
    then have "i \<noteq> h" by (auto simp: live_def)
    with i li show "activeSourceRef ?w' = Some i"
      using sources_okD(2) [OF ok, of i] by simp
  next
    fix i assume "i < length (sources ?w')"
    then show "stopped (sources ?w' ! i) = (onended (sources ?w' ! i) = None)"
      using sources_okD(3) [OF ok, of i] by (cases "i = h") simp_all
  qed
  moreover have "playing_ok ?w'"
    unfolding playing_ok_def
  proof
    assume "playbackState (st ?w') = PLAYING"
    with pl obtain a where a: "activeSourceRef w = Some a" "a < length (sources w)"
        "live (sources w ! a)"
      by (auto simp: playing_ok_def)
    with s have "a \<noteq> h" by (auto simp: live_def)
    with a show "\<exists>a. activeSourceRef ?w' = Some a \<and> a < length (sources ?w') \<and>
        live (sources ?w' ! a)"
      by simp
  qed
  ultimately show ?thesis by (simp add: good_def)
qed

lemma source_ended_good:
  assumes "good w" "source_ended n atob h w = Some w'"
  shows "good w'"
proof (cases "h < length (sources w) \<and> \<not> ended (sources w ! h)")
  case False
  with assms show ?thesis by (auto simp: source_ended_def)
next
  case True
  from assms(1) have ok: "sources_ok w" by (simp add: good_def)
  let ?w1 = "w\<lparr>sources := (sources w)[h := (sources w ! h)\<lparr>ended := True\<rparr>]\<rparr>"
  show ?thesis
  proof (cases "onended (sources w ! h)")
    case None
    with True assms(2) have w': "w' = ?w1" by (simp add: source_ended_def Let_def)
    from None True have "stopped (sources w ! h)"
      using sources_okD(3) [OF ok, of h] by simp
    with True assms(1) show ?thesis unfolding w' by (simp add: good_ended_stopped)
  next
    case (Some cl)
    with True assms(2) have run: "onEnded n atob cl (?w1\<lparr>activeSourceRef := None\<rparr>) = Some w'"
      by (simp add: source_ended_def Let_def)
    from Some True have "\<not> stopped (sources w ! h)"
      using sources_okD(3) [OF ok, of h] by simp
    with True have "live (sources w ! h)" by (simp add: live_def)
    with True ok have "sources_ok (?w1\<lparr>activeSourceRef := None\<rparr>)"
      using sources_ok_ended_live [of w h] by simp
    then show ?thesis using run by (rule play_functions_good(4))
  qed
qed

lemma handlePlayPause_good:
  assumes "good w" "handlePlayPause n atob e seg w = Some w'"
  shows "good w'"
proof (cases "playingSegmentId e = Some (seg_id seg) \<and> playbackState e = PLAYING")
  case True
  with assms show ?thesis by (auto simp: handlePlayPause_def good_stopPlayback good_def [of w])
next
  case False
  with assms(2) have "playSegment n atob e seg False w = Some w'"
    by (auto simp: handlePlayPause_def)
  moreover from assms(1) have "sources_ok w" by (simp add: good_def)
  ultimately show ?thesis using play_functions_good(2) by blast
qed

lemma handlePlayAll_good:
  assumes "good w" "handlePlayAll n atob e w = Some w'"
  shows "good w'"
proof (cases "length (segments e) > 0")
  case True
  with assms(2) have "playSegment n atob e (segments e ! 0) True w = Some w'"
    by (simp add: handlePlayAll_def)
  moreover from assms(1) have "sources_ok w" by (simp add: good_def)
  ultimately show ?thesis using play_functions_good(2) by blast
next
  case False
  with assms show ?thesis by (simp add: handlePlayAll_def)
qed

lemma good_fields [simp]:
  "good (w\<lparr>analyses := a\<rparr>) = good w"
  "good (setInputText a1 w) = good w"
  "good (setSegments a2 w) = good w"
  "good (setIsProcessing a3 w) = good w"
  "good (setSelectedVoice a4 w) = good w"
  "good (setAudioCache a5 w) = good w"
  by (simp_all add: good_def playing_ok_def sources_ok_def setter_defs)

lemma simple_handlers_good:
  assumes "good w"
  shows "good (handleProcess e w)" "good (handleProcess_resume r w)"
    "good (handleClear w)" "good (voiceChanged v w)"
proof -
  from assms have ok: "sources_ok w" by (simp add: good_def)
  show "good (handleProcess e w)"
    using assms good_stopPlayback [OF ok] by (simp add: handleProcess_def)
  show "good (handleProcess_resume r w)"
    using assms by (cases r) (simp_all add: handleProcess_resume_def)
  show "good (handleClear w)"
    using good_stopPlayback [OF ok] by (simp add: handleClear_def)
  have "sources_ok (setAudioCache (\<lambda>prev. Map.empty) (setSelectedVoice v w))"
    using ok by simp
  then show "good (voiceChanged v w)"
    using assms by (simp add: voiceChanged_def voice_effect_def good_stopPlayback)
qed

lemma step_good:
  assumes "good w" "step n atob ev w = Some w'"
  shows "good w'"
proof (cases ev)
  case (PlayPause i)
  with assms show ?thesis
    by (auto simp: step_def Let_def split: if_splits dest: handlePlayPause_good)
next
  case PlayAll
  with assms show ?thesis
    by (auto simp: step_def Let_def split: if_splits dest: handlePlayAll_good)
next
  case Stop
  from assms(1) have "sources_ok w" by (simp add: good_def)
  with Stop assms show ?thesis
    by (auto simp: step_def Let_def good_stopPlayback split: if_splits)
next
  case (SpeechResponse k d)
  with assms show ?thesis
    by (auto simp: step_def Let_def dest: playSegment_resume_good)
next
  case (Ended h)
  with assms show ?thesis
    by (auto simp: step_def Let_def dest: source_ended_good)
next
  case (VoiceSelected v)
  with assms show ?thesis
    by (auto simp: step_def Let_def simple_handlers_good)
next
  case (InputChanged v)
  with assms show ?thesis
    by (auto simp: step_def Let_def)
next
  case Process
  with assms show ?thesis
    by (auto simp: step_def Let_def simple_handlers_good split: if_splits)
next
  case (AnalysisResponse r)
  with assms show ?thesis
    by (auto simp: step_def Let_def simple_handlers_good)
next
  case Clear
  with assms show ?thesis
    by (auto simp: step_def Let_def simple_handlers_good split: if_splits)
qed

lemma run_good: "good w \<Longrightarrow> run n atob evs w = Some w' \<Longrightarrow> good w'"
proof (induction evs arbitrary: w)
  case Nil
  then show ?case by simp
next
  case (Cons ev evs)
  from Cons.prems(2) obtain w1 where s: "step n atob ev w = Some w1"
    and r: "run n atob evs w1 = Some w'"
    by (auto split: option.splits)
  from step_good [OF Cons.prems(1) s] have "good w1" .
  from Cons.IH [OF this r] show ?case .
qed

lemma good_init: "good init_world"
  by (simp add: good_def sources_ok_def playing_ok_def init_world_def init_state_def)

lemmas atob_defs = window_atob_def strip_padding_def ascii_whitespace_def b64_digit_def

lemmas decode_defs = decodePcm_def decodeBase64_def decodeAudioData_def int16_le_def

lemmas handler_defs = disarm_and_stop_def stopPlayback_def initAudioContext_def cached_def
  call_generateSpeech_def generateSpeech_def playSegment_resume_def source_ended_def
  handlePlayPause_def handlePlayAll_def js_whitespace_def js_trim_def handleProcess_def
  handleProcess_resume_def handleClear_def voice_effect_def voiceChanged_def stopShown_def
  isLoading_def step_def playPcmData.simps playSegment.simps playNextSegment.simps
  onEnded.simps

lemmas eval_defs = atob_defs decode_defs setter_defs handler_defs init_world_def
  init_state_def segA_def segB_def analysed_def Let_def

section \<open>Stop while a synthesis call is in flight\<close>

lemma sources_stopPlayback_nth:
  "h < length (sources w) \<Longrightarrow> activeSourceRef w \<noteq> Some h \<Longrightarrow>
     sources (stopPlayback w) ! h = sources w ! h"
  by (cases "activeSourceRef w") (simp_all add: stopPlayback_def setter_defs disarm_and_stop_def)

lemma sources_stopPlayback_active:
  "activeSourceRef w = Some h \<Longrightarrow> h < length (sources w) \<Longrightarrow>
     stopped (sources (stopPlayback w) ! h) \<and> onended (sources (stopPlayback w) ! h) = None"
  by (simp add: stopPlayback_def setter_defs disarm_and_stop_def)






lemma decodePcm_one_sample:
  "decodePcm window_atob ''AAA='' =
     Inr \<lparr>numberOfChannels = 1, sampleRate = 24000, channelData = [0]\<rparr>"
  by (simp add: atob_defs decode_defs)


section \<open>A payload that does not decode\<close>



lemma findIndex_distinct:
  assumes "distinct (map f (pre @ x # post))"
  shows "findIndex (\<lambda>y. f y = f x) (pre @ x # post) = int (length pre)"
  using assms
proof (induction pre)
  case Nil
  then show ?case by simp
next
  case (Cons a pre)
  then have "f a \<noteq> f x" by auto
  moreover from Cons have "findIndex (\<lambda>y. f y = f x) (pre @ x # post) = int (length pre)"
    by simp
  ultimately show ?case by (simp add: Let_def)
qed










section \<open>One live source\<close>

lemma reachable_good: "run n atob evs init_world = Some w \<Longrightarrow> good w"
  using run_good [OF good_init] .









lemma playing_first_run:
  "\<exists>w. run 0 window_atob (analysed @ [PlayPause 0, SpeechResponse 0 (Some ''AAA='')]) init_world
       = Some w \<and>
     playbackState (st w) = PLAYING \<and> playingSegmentId (st w) = Some ''seg-1'' \<and>
     activeSourceRef w = Some 0 \<and> length (sources w) = 1 \<and> live (sources w ! 0) \<and>
     audioCache (st w) ''seg-1'' = Some ''AAA='' \<and> selectedVoice (st w) = ''Kore'' \<and>
     length (calls w) = 1"
  by (simp add: eval_defs live_def)


lemma decodePcm_one_unit:
  "decodePcm window_atob ''AQA='' =
     Inr \<lparr>numberOfChannels = 1, sampleRate = 24000, channelData = [1 / 32768]\<rparr>"
  by (simp add: atob_defs decode_defs)

section \<open>A change of voice\<close>

lemma no_live_stopPlayback:
  assumes "sources_ok w"
  shows "no_live (stopPlayback w)"
proof (cases "activeSourceRef w")
  case None
  with no_live_if_no_ref [OF assms] show ?thesis
    by (simp add: stopPlayback_def setter_defs no_live_def)
next
  case (Some h)
  with disarm_active(2) [OF assms] show ?thesis
    by (simp add: stopPlayback_def setter_defs no_live_def)
qed

lemma no_live_st [simp]: "no_live (w\<lparr>st := s\<rparr>) = no_live w"
  by (simp add: no_live_def)

text \<open>
  Claim C10. When a voice other than the selected one is chosen, the effect clears the
  whole cache and runs \<^verbatim>\<open>stopPlayback\<close>: the phase is \<open>IDLE\<close>, no segment is active, the ref
  is cleared, and the node that was active has been stopped with its handler removed.
  In a state that satisfies the invariant of the source nodes, no node is live
  afterwards.
\<close>

theorem voice_change_stops_playback:
  "v \<noteq> selectedVoice (st w) \<longrightarrow>
     selectedVoice (st (voiceChanged v w)) = v \<and>
     audioCache (st (voiceChanged v w)) = Map.empty \<and>
     playbackState (st (voiceChanged v w)) = IDLE \<and>
     playingSegmentId (st (voiceChanged v w)) = None \<and>
     activeSourceRef (voiceChanged v w) = None \<and>
     (\<forall>h. activeSourceRef w = Some h \<and> h < length (sources w) \<longrightarrow>
        stopped (sources (voiceChanged v w) ! h) \<and>
        onended (sources (voiceChanged v w) ! h) = None) \<and>
     (sources_ok w \<longrightarrow> no_live (voiceChanged v w))"
proof
  assume v: "v \<noteq> selectedVoice (st w)"
  let ?w1 = "setAudioCache (\<lambda>prev. Map.empty) (setSelectedVoice v w)"
  from v have eq: "voiceChanged v w = stopPlayback ?w1"
    by (simp add: voiceChanged_def voice_effect_def)
  have f: "activeSourceRef ?w1 = activeSourceRef w" "sources ?w1 = sources w"
    by (simp_all add: setter_defs)
  have "sources_ok w \<Longrightarrow> no_live (stopPlayback ?w1)"
    by (rule no_live_stopPlayback) simp
  moreover have "\<forall>h. activeSourceRef w = Some h \<and> h < length (sources w) \<longrightarrow>
      stopped (sources (stopPlayback ?w1) ! h) \<and> onended (sources (stopPlayback ?w1) ! h) = None"
    using sources_stopPlayback_active [of ?w1] f by simp
  ultimately show "selectedVoice (st (voiceChanged v w)) = v \<and>
     audioCache (st (voiceChanged v w)) = Map.empty \<and>
     playbackState (st (voiceChanged v w)) = IDLE \<and>
     playingSegmentId (st (voiceChanged v w)) = None \<and>
     activeSourceRef (voiceChanged v w) = None \<and>
     (\<forall>h. activeSourceRef w = Some h \<and> h < length (sources w) \<longrightarrow>
        stopped (sources (voiceChanged v w) ! h) \<and>
        onended (sources (voiceChanged v w) ! h) = None) \<and>
     (sources_ok w \<longrightarrow> no_live (voiceChanged v w))"
    unfolding eq by (simp add: setter_defs)
qed

theorem voice_change_stops_playback_witness:
  "\<exists>w. run 0 window_atob (analysed @ [PlayPause 0, SpeechResponse 0 (Some ''AAA='')]) init_world
       = Some w \<and>
     playbackState (st w) = PLAYING \<and> activeSourceRef w = Some 0 \<and> live (sources w ! 0) \<and>
     audioCache (st w) ''seg-1'' = Some ''AAA='' \<and> ''Puck'' \<noteq> selectedVoice (st w) \<and>
     selectedVoice (st (voiceChanged ''Puck'' w)) = ''Puck'' \<and>
     audioCache (st (voiceChanged ''Puck'' w)) ''seg-1'' = None \<and>
     playbackState (st (voiceChanged ''Puck'' w)) = IDLE \<and>
     playingSegmentId (st (voiceChanged ''Puck'' w)) = None \<and>
     activeSourceRef (voiceChanged ''Puck'' w) = None \<and>
     stopped (sources (voiceChanged ''Puck'' w) ! 0) \<and>
     onended (sources (voiceChanged ''Puck'' w) ! 0) = None \<and>
     no_live (voiceChanged ''Puck'' w)"
proof -
  from playing_first_run obtain w where
    r: "run 0 window_atob (analysed @ [PlayPause 0, SpeechResponse 0 (Some ''AAA='')]) init_world
       = Some w" and
    f: "playbackState (st w) = PLAYING" "activeSourceRef w = Some 0" "length (sources w) = 1"
      "live (sources w ! 0)" "audioCache (st w) ''seg-1'' = Some ''AAA=''"
      "selectedVoice (st w) = ''Kore''"
    by blast
  from f have v: "''Puck'' \<noteq> selectedVoice (st w)" by simp
  from reachable_good [OF r] have ok: "sources_ok w" by (simp add: good_def)
  note T = voice_change_stops_playback [of "''Puck''" w, THEN mp, OF v]
  from T f have "stopped (sources (voiceChanged ''Puck'' w) ! 0) \<and>
      onended (sources (voiceChanged ''Puck'' w) ! 0) = None"
    by simp
  moreover from T ok have "no_live (voiceChanged ''Puck'' w)" by blast
  moreover from T have "audioCache (st (voiceChanged ''Puck'' w)) ''seg-1'' = None" by simp
  ultimately show ?thesis using r f v T by blast
qed

section \<open>The play button of a card\<close>

lemma replaced_ok_refl: "replaced_ok w w"
  by (simp add: replaced_ok_def)






lemma both_cached_run:
  "\<exists>w. run 0 window_atob both_cached init_world = Some w \<and>
     playbackState (st w) = PLAYING \<and> playingSegmentId (st w) = Some ''seg-1'' \<and>
     activeSourceRef w = Some 1 \<and> length (sources w) = 2 \<and>
     audioCache (st w) ''seg-1'' = Some ''AAA='' \<and> audioCache (st w) ''seg-2'' = Some ''AQA='' \<and>
     length (calls w) = 2"
  by (simp add: both_cached_def eval_defs)


section \<open>Clearing the cache\<close>



lemma cached_empty [simp]: "cached Map.empty k = None"
  by (simp add: cached_def)



lemma calls_voiceChanged [simp]: "calls (voiceChanged v w) = calls w"
  by (simp add: voiceChanged_def voice_effect_def setter_defs)

lemma calls_handleProcess [simp]: "calls (handleProcess e w) = calls w"
  by (simp add: handleProcess_def setter_defs)


lemma audioCache_stopPlayback [simp]: "audioCache (st (stopPlayback w)) = audioCache (st w)"
  by (cases "activeSourceRef w") (simp_all add: stopPlayback_def setter_defs disarm_and_stop_def)






section \<open>A change of voice while a call is in flight\<close>






section \<open>Reuse of a cached payload\<close>

lemma played_second_run:
  "\<exists>w. run 0 window_atob played_second init_world = Some w \<and>
     audioCache (st w) ''seg-2'' = Some ''AQA='' \<and> length (sources w) = 1 \<and>
     ended (sources w ! 0) \<and> \<not> stopped (sources w ! 0) \<and>
     channelData (buffer (sources w ! 0)) = [1 / 32768] \<and>
     playbackState (st w) = IDLE \<and> selectedVoice (st w) = ''Kore'' \<and>
     map call_text (calls w) = [''Reading is essential.'', ''Knowledge is power.'']"
  by (simp add: played_second_def eval_defs)

lemma chain_refetch_run:
  "\<exists>w. run 0 window_atob chain_refetch init_world = Some w \<and>
     audioCache (st w) ''seg-2'' = Some ''AQA='' \<and> selectedVoice (st w) = ''Kore'' \<and>
     segments (st w) = [segA, segB] \<and>
     playbackState (st w) = LOADING_AUDIO \<and> playingSegmentId (st w) = Some ''seg-2'' \<and>
     map call_text (calls w) =
       [''Reading is essential.'', ''Knowledge is power.'', ''Knowledge is power.''] \<and>
     map call_voiceName (calls w) = [''Kore'', ''Kore'', ''Kore''] \<and>
     map resolved (calls w) = [True, True, False]"
  by (simp add: chain_refetch_def played_second_def eval_defs)

text \<open>
  Claim C6 on a run of the code. Press Read All on two segments and, while the first is
  loading, play on the second card. The response for the second segment arrives first:
  it is cached and played to its end. Then the response for the first segment arrives
  and is played to its end, and the chain, which still reads the cache of the render in
  which Read All was pressed, asks the synthesis service for the second segment again,
  under the same voice and with the same list, although its payload is in the cache.
\<close>

theorem chain_refetch_synthesises_again:
  "audioCache (st (the (run 0 window_atob played_second init_world))) ''seg-2'' = Some ''AQA='' \<and>
   ended (sources (the (run 0 window_atob played_second init_world)) ! 0) \<and>
   map call_text (calls (the (run 0 window_atob played_second init_world))) =
     [''Reading is essential.'', ''Knowledge is power.''] \<and>
   run 0 window_atob chain_refetch init_world \<noteq> None \<and>
   audioCache (st (the (run 0 window_atob chain_refetch init_world))) ''seg-2'' = Some ''AQA='' \<and>
   segments (st (the (run 0 window_atob chain_refetch init_world))) = [segA, segB] \<and>
   map call_text (calls (the (run 0 window_atob chain_refetch init_world))) =
     [''Reading is essential.'', ''Knowledge is power.'', ''Knowledge is power.''] \<and>
   map call_voiceName (calls (the (run 0 window_atob chain_refetch init_world))) =
     [''Kore'', ''Kore'', ''Kore'']"
  using played_second_run chain_refetch_run by auto

section \<open>Read All\<close>

lemma length_stopped_sources [simp]: "length (stopped_sources r xs) = length xs"
  by (simp add: stopped_sources_def split: option.splits)

lemma stopped_sources_None [simp]: "stopped_sources None xs = xs"
  by (simp add: stopped_sources_def)

lemma findIndex_bounds: "- 1 \<le> findIndex P xs \<and> findIndex P xs < int (length xs)"
  by (induction xs) (auto simp: Let_def)

lemma run_Cons_bind:
  "run n atob (ev # evs) w = Option.bind (step n atob ev w) (run n atob evs)"
  by (cases "step n atob ev w") simp_all

lemma step_Ended [simp]: "step n atob (Ended h) w = source_ended n atob h w"
  by (simp add: step_def)

lemma step_SpeechResponse [simp]:
  "step n atob (SpeechResponse k d) w = playSegment_resume n atob k d w"
  by (simp add: step_def)

lemma playPcmData_starts:
  assumes "decodePcm atob p = Inr b"
  shows "\<exists>w2. playPcmData n atob p cl w = Some w2 \<and>
           sources w2 = stopped_sources (activeSourceRef w) (sources w) @
             [\<lparr>buffer = b, onended = Some cl, stopped = False, ended = False\<rparr>] \<and>
           activeSourceRef w2 = Some (length (sources w)) \<and> calls w2 = calls w \<and> st w2 = st w"
  using assms
  by (simp add: playPcmData.simps initAudioContext_def disarm_and_stop_def stopped_sources_def
      split: option.splits)

lemma source_ended_chain:
  assumes "sources w = xs @ [\<lparr>buffer = b, onended = Some cl, stopped = False, ended = False\<rparr>]"
    and "autoPlayNext cl"
  shows "\<exists>wm. source_ended n atob (length xs) w =
             playNextSegment n atob (env cl) (seg_id (segment cl)) wm \<and>
           sources wm = xs @ [\<lparr>buffer = b, onended = Some cl, stopped = False, ended = True\<rparr>] \<and>
           activeSourceRef wm = None \<and> calls wm = calls w \<and> st wm = st w"
proof -
  let ?wm = "w\<lparr>sources := xs @ [\<lparr>buffer = b, onended = Some cl, stopped = False, ended = True\<rparr>],
      activeSourceRef := None\<rparr>"
  from assms have "source_ended n atob (length xs) w =
      playNextSegment n atob (env cl) (seg_id (segment cl)) ?wm"
    by (simp add: source_ended_def onEnded.simps)
  then show ?thesis by (intro exI [of _ ?wm]) simp
qed

text \<open>One segment of a chain: from the call of \<^verbatim>\<open>playSegment\<close> to the end of its node.\<close>

lemma chain_cycle:
  assumes dec: "decodePcm atob (payload_for (audioCache e) tts s) = Inr (decoded s)"
    and ne: "cached (audioCache e) (seg_id s) = None \<longrightarrow> tts s \<noteq> []"
  shows "\<exists>w2 wm. playSegment n atob e s True w1 = Some w2 \<and>
           sources wm = stopped_sources (activeSourceRef w1) (sources w1) @
             [played_node e decoded s] \<and>
           activeSourceRef wm = None \<and>
           calls wm = calls w1 @
             map (made_call e) (filter (\<lambda>s. cached (audioCache e) (seg_id s) = None) [s]) \<and>
           run n atob (chain_events (audioCache e) tts (length (calls w1)) (length (sources w1))
               (s # ss)) w2 =
             Option.bind (playNextSegment n atob e (seg_id s) wm)
               (run n atob (chain_events (audioCache e) tts (length (calls wm))
                  (length (sources wm)) ss))"
proof (cases "cached (audioCache e) (seg_id s)")
  case (Some p)
  let ?cl = "\<lparr>segment = s, autoPlayNext = True, env = e\<rparr>"
  let ?wA = "setPlaybackState PLAYING (setPlayingSegmentId (Some (seg_id s)) w1)"
  let ?xs = "stopped_sources (activeSourceRef w1) (sources w1)"
  from Some dec have d: "decodePcm atob p = Inr (decoded s)" by (simp add: payload_for_def)
  have ps: "playSegment n atob e s True w1 = playPcmData n atob p ?cl ?wA"
    using Some by (simp add: playSegment.simps)
  from playPcmData_starts [OF d, of n ?cl ?wA] obtain w2 where
    w2: "playPcmData n atob p ?cl ?wA = Some w2"
      "sources w2 = ?xs @ [\<lparr>buffer = decoded s, onended = Some ?cl, stopped = False, ended = False\<rparr>]"
      "calls w2 = calls w1"
    by (auto simp: setter_defs)
  from source_ended_chain [OF w2(2), of n atob] obtain wm where
    wm: "source_ended n atob (length ?xs) w2 = playNextSegment n atob e (seg_id s) wm"
      "sources wm = ?xs @ [played_node e decoded s]" "activeSourceRef wm = None"
      "calls wm = calls w2"
    by (auto simp: played_node_def)
  have "run n atob (chain_events (audioCache e) tts (length (calls w1)) (length (sources w1))
      (s # ss)) w2 =
      Option.bind (playNextSegment n atob e (seg_id s) wm)
        (run n atob (chain_events (audioCache e) tts (length (calls wm)) (length (sources wm)) ss))"
    using Some wm w2(3) by (simp add: run_Cons_bind del: run.simps)
  with ps w2 wm Some show ?thesis by (intro exI [of _ w2] exI [of _ wm]) simp
next
  case None
  let ?cl = "\<lparr>segment = s, autoPlayNext = True, env = e\<rparr>"
  let ?k = "length (calls w1)"
  let ?xs = "stopped_sources (activeSourceRef w1) (sources w1)"
  let ?w2 = "call_generateSpeech ?cl
      (setPlaybackState LOADING_AUDIO (setPlayingSegmentId (Some (seg_id s)) w1))"
  let ?wB = "setPlaybackState PLAYING
      (setAudioCache (\<lambda>prev. prev(seg_id s \<mapsto> tts s))
        (?w2\<lparr>calls := (calls ?w2)[?k := (calls ?w2 ! ?k)\<lparr>resolved := True\<rparr>]\<rparr>))"
  from None dec have d: "decodePcm atob (tts s) = Inr (decoded s)" by (simp add: payload_for_def)
  from None ne have t: "tts s \<noteq> []" by simp
  have ps: "playSegment n atob e s True w1 = Some ?w2"
    using None by (simp add: playSegment.simps)
  have c2: "calls ?w2 = calls w1 @ [\<lparr>call_text = original s, call_voiceName = selectedVoice e,
      continuation = ?cl, resolved = False\<rparr>]"
    by (simp add: call_generateSpeech_def setter_defs)
  have resume: "playSegment_resume n atob ?k (Some (tts s)) ?w2 = playPcmData n atob (tts s) ?cl ?wB"
    using t c2 by (simp add: playSegment_resume_def generateSpeech_def Let_def)
  have B: "sources ?wB = sources w1" "activeSourceRef ?wB = activeSourceRef w1"
    "calls ?wB = calls w1 @ [made_call e s]"
    using c2 by (simp_all add: setter_defs call_generateSpeech_def made_call_def)
  from playPcmData_starts [OF d, of n ?cl ?wB] B obtain w3 where
    w3: "playPcmData n atob (tts s) ?cl ?wB = Some w3"
      "sources w3 = ?xs @ [\<lparr>buffer = decoded s, onended = Some ?cl, stopped = False, ended = False\<rparr>]"
      "calls w3 = calls w1 @ [made_call e s]"
    by auto
  from source_ended_chain [OF w3(2), of n atob] obtain wm where
    wm: "source_ended n atob (length ?xs) w3 = playNextSegment n atob e (seg_id s) wm"
      "sources wm = ?xs @ [played_node e decoded s]" "activeSourceRef wm = None"
      "calls wm = calls w3"
    by (auto simp: played_node_def)
  have "run n atob (chain_events (audioCache e) tts ?k (length (sources w1)) (s # ss)) ?w2 =
      Option.bind (playNextSegment n atob e (seg_id s) wm)
        (run n atob (chain_events (audioCache e) tts (length (calls wm)) (length (sources wm)) ss))"
    using None resume w3 wm by (simp add: run_Cons_bind del: run.simps)
  with ps w3 wm None show ?thesis by (intro exI [of _ ?w2] exI [of _ wm]) simp
qed

lemma playNextSegment_last:
  assumes "distinct (map seg_id (pre @ [s]))" "segments e = pre @ [s]"
  shows "playNextSegment n atob e (seg_id s) w =
     Some (setPlayingSegmentId None (setPlaybackState IDLE w))"
  using findIndex_distinct [of seg_id pre s "[]"] assms
  by (simp add: playNextSegment.simps)

lemma playNextSegment_next:
  assumes "distinct (map seg_id (pre @ s # s' # ss))" "segments e = pre @ s # s' # ss"
  shows "playNextSegment n atob e (seg_id s) w = playSegment n atob e s' True w"
proof -
  from findIndex_distinct [of seg_id pre s "s' # ss"] assms
  have i: "findIndex (\<lambda>x. seg_id x = seg_id s) (segments e) = int (length pre)" by simp
  have "nat (int (length pre) + 1) = Suc (length pre)" by simp
  moreover have "(pre @ s # s' # ss) ! Suc (length pre) = s'"
    by (simp add: nth_append)
  ultimately show ?thesis using i assms(2)
    by (simp add: playNextSegment.simps)
qed

text \<open>
  A chain from any segment of the list on: every remaining segment gets its node, in the
  order of the list, and a call when it is not cached; then the session is idle.
\<close>

lemma chain_rest:
  assumes "segments e = pre @ s # ss" and "distinct (map seg_id (pre @ s # ss))"
    and "\<forall>x \<in> set (s # ss).
           decodePcm atob (payload_for (audioCache e) tts x) = Inr (decoded x) \<and>
           (cached (audioCache e) (seg_id x) = None \<longrightarrow> tts x \<noteq> [])"
  shows "\<exists>w2 w'. playSegment n atob e s True w1 = Some w2 \<and>
           run n atob (chain_events (audioCache e) tts (length (calls w1)) (length (sources w1))
             (s # ss)) w2 = Some w' \<and>
           sources w' = stopped_sources (activeSourceRef w1) (sources w1) @
             map (played_node e decoded) (s # ss) \<and>
           calls w' = calls w1 @
             map (made_call e) (filter (\<lambda>x. cached (audioCache e) (seg_id x) = None) (s # ss)) \<and>
           playbackState (st w') = IDLE \<and> playingSegmentId (st w') = None \<and>
           activeSourceRef w' = None"
  using assms
proof (induction ss arbitrary: pre s w1)
  case Nil
  from Nil.prems(3) have d: "decodePcm atob (payload_for (audioCache e) tts s) = Inr (decoded s)"
    and ne: "cached (audioCache e) (seg_id s) = None \<longrightarrow> tts s \<noteq> []"
    by simp_all
  from chain_cycle [where atob = atob and e = e and tts = tts and s = s and decoded = decoded
      and n = n and ?w1.0 = w1 and ss = "[]", OF d ne] obtain w2 wm where
    c: "playSegment n atob e s True w1 = Some w2"
      "sources wm = stopped_sources (activeSourceRef w1) (sources w1) @ [played_node e decoded s]"
      "activeSourceRef wm = None"
      "calls wm = calls w1 @
         map (made_call e) (filter (\<lambda>s. cached (audioCache e) (seg_id s) = None) [s])"
      "run n atob (chain_events (audioCache e) tts (length (calls w1)) (length (sources w1)) [s]) w2 =
         Option.bind (playNextSegment n atob e (seg_id s) wm)
           (run n atob (chain_events (audioCache e) tts (length (calls wm)) (length (sources wm)) []))"
    by blast
  let ?w' = "setPlayingSegmentId None (setPlaybackState IDLE wm)"
  from playNextSegment_last [OF Nil.prems(2) Nil.prems(1)]
  have "playNextSegment n atob e (seg_id s) wm = Some ?w'" .
  with c(5) have "run n atob (chain_events (audioCache e) tts (length (calls w1))
      (length (sources w1)) [s]) w2 = Some ?w'"
    by simp
  with c show ?case
    by (intro exI [of _ w2] exI [of _ ?w']) (simp add: setter_defs)
next
  case (Cons s' ss)
  from Cons.prems(3) have d: "decodePcm atob (payload_for (audioCache e) tts s) = Inr (decoded s)"
    and ne: "cached (audioCache e) (seg_id s) = None \<longrightarrow> tts s \<noteq> []"
    by simp_all
  from chain_cycle [where atob = atob and e = e and tts = tts and s = s and decoded = decoded
      and n = n and ?w1.0 = w1 and ss = "s' # ss", OF d ne] obtain w2 wm where
    c: "playSegment n atob e s True w1 = Some w2"
      "sources wm = stopped_sources (activeSourceRef w1) (sources w1) @ [played_node e decoded s]"
      "activeSourceRef wm = None"
      "calls wm = calls w1 @
         map (made_call e) (filter (\<lambda>s. cached (audioCache e) (seg_id s) = None) [s])"
      "run n atob (chain_events (audioCache e) tts (length (calls w1)) (length (sources w1))
           (s # s' # ss)) w2 =
         Option.bind (playNextSegment n atob e (seg_id s) wm)
           (run n atob (chain_events (audioCache e) tts (length (calls wm)) (length (sources wm))
              (s' # ss)))"
    by blast
  have seg: "segments e = (pre @ [s]) @ s' # ss" using Cons.prems(1) by simp
  have dis: "distinct (map seg_id ((pre @ [s]) @ s' # ss))" using Cons.prems(2) by simp
  have rest: "\<forall>x \<in> set (s' # ss).
      decodePcm atob (payload_for (audioCache e) tts x) = Inr (decoded x) \<and>
      (cached (audioCache e) (seg_id x) = None \<longrightarrow> tts x \<noteq> [])"
    using Cons.prems(3) by simp
  from Cons.IH [where pre = "pre @ [s]" and s = s' and ?w1.0 = wm, OF seg dis rest] obtain w3 w' where
    r: "playSegment n atob e s' True wm = Some w3"
      "run n atob (chain_events (audioCache e) tts (length (calls wm)) (length (sources wm))
         (s' # ss)) w3 = Some w'"
      "sources w' = stopped_sources (activeSourceRef wm) (sources wm) @
         map (played_node e decoded) (s' # ss)"
      "calls w' = calls wm @
         map (made_call e) (filter (\<lambda>x. cached (audioCache e) (seg_id x) = None) (s' # ss))"
      "playbackState (st w') = IDLE" "playingSegmentId (st w') = None" "activeSourceRef w' = None"
    by blast
  from playNextSegment_next [OF Cons.prems(2) Cons.prems(1)]
  have "playNextSegment n atob e (seg_id s) wm = playSegment n atob e s' True wm" .
  with c(5) r(1,2) have "run n atob (chain_events (audioCache e) tts (length (calls w1))
      (length (sources w1)) (s # s' # ss)) w2 = Some w'"
    by simp
  moreover from r(3) c(2,3) have "sources w' = stopped_sources (activeSourceRef w1) (sources w1) @
      map (played_node e decoded) (s # s' # ss)"
    by simp
  moreover from r(4) c(4) have "calls w' = calls w1 @
      map (made_call e) (filter (\<lambda>x. cached (audioCache e) (seg_id x) = None) (s # s' # ss))"
    by simp
  ultimately show ?case using c(1) r(5,6,7)
    by (intro exI [of _ w2] exI [of _ w']) simp
qed

text \<open>
  Claim C8. Take a segment list with pairwise distinct ids, as the data model has it,
  and let nothing fail: every payload, cached or returned by the service, is not empty
  and decodes. \<^verbatim>\<open>handlePlayAll\<close> on an empty list returns the state unchanged. On a list
  of N segments, \<^verbatim>\<open>handlePlayAll\<close> followed by the responses and natural ends of the
  chain creates exactly N source nodes, one for each segment in the order of the list,
  each holding the decoded payload of its segment and played to its end; it makes one
  synthesis call for each segment that is not cached, in the order of the list; and
  it leaves the phase \<open>IDLE\<close>, no active segment and no active source.
\<close>

theorem play_all_plays_each_segment_once:
  assumes "distinct (map seg_id (segments (st w)))"
    and "\<forall>x \<in> set (segments (st w)).
           decodePcm atob (payload_for (audioCache (st w)) tts x) = Inr (decoded x) \<and>
           (cached (audioCache (st w)) (seg_id x) = None \<longrightarrow> tts x \<noteq> [])"
  shows "(segments (st w) = [] \<longrightarrow> handlePlayAll n atob (st w) w = Some w) \<and>
         (segments (st w) \<noteq> [] \<longrightarrow>
            (\<exists>w1 w'. handlePlayAll n atob (st w) w = Some w1 \<and>
               run n atob (chain_events (audioCache (st w)) tts (length (calls w))
                 (length (sources w)) (segments (st w))) w1 = Some w' \<and>
               length (sources w') = length (sources w) + length (segments (st w)) \<and>
               drop (length (sources w)) (sources w') =
                 map (played_node (st w) decoded) (segments (st w)) \<and>
               calls w' = calls w @ map (made_call (st w))
                 (filter (\<lambda>x. cached (audioCache (st w)) (seg_id x) = None) (segments (st w))) \<and>
               playbackState (st w') = IDLE \<and> playingSegmentId (st w') = None \<and>
               activeSourceRef w' = None))"
proof (cases "segments (st w)")
  case Nil
  then show ?thesis by (simp add: handlePlayAll_def)
next
  case (Cons s ss)
  then have seg: "segments (st w) = [] @ s # ss" by simp
  from assms(1) Cons have dis: "distinct (map seg_id ([] @ s # ss))" by simp
  from assms(2) Cons have ok: "\<forall>x \<in> set (s # ss).
      decodePcm atob (payload_for (audioCache (st w)) tts x) = Inr (decoded x) \<and>
      (cached (audioCache (st w)) (seg_id x) = None \<longrightarrow> tts x \<noteq> [])"
    by simp
  from chain_rest [where e = "st w" and pre = "[]" and s = s and ss = ss and atob = atob
      and tts = tts and decoded = decoded and n = n and ?w1.0 = w, OF seg dis ok] obtain w1 w' where
    r: "playSegment n atob (st w) s True w = Some w1"
      "run n atob (chain_events (audioCache (st w)) tts (length (calls w)) (length (sources w))
         (s # ss)) w1 = Some w'"
      "sources w' = stopped_sources (activeSourceRef w) (sources w) @
         map (played_node (st w) decoded) (s # ss)"
      "calls w' = calls w @ map (made_call (st w))
         (filter (\<lambda>x. cached (audioCache (st w)) (seg_id x) = None) (s # ss))"
      "playbackState (st w') = IDLE" "playingSegmentId (st w') = None" "activeSourceRef w' = None"
    by blast
  from Cons r(1) have h: "handlePlayAll n atob (st w) w = Some w1"
    by (simp add: handlePlayAll_def)
  from r(3) have "length (sources w') = length (sources w) + length (s # ss)"
    and "drop (length (sources w)) (sources w') = map (played_node (st w) decoded) (s # ss)"
    by simp_all
  with Cons h r show ?thesis
    by (intro conjI impI exI [of _ w1] exI [of _ w']) simp_all
qed

lemma second_cached_run:
  "\<exists>w. run 0 window_atob second_cached init_world = Some w \<and>
     segments (st w) = [segA, segB] \<and>
     audioCache (st w) ''seg-1'' = None \<and> audioCache (st w) ''seg-2'' = Some ''AQA='' \<and>
     length (calls w) = 1 \<and> length (sources w) = 1 \<and> playbackState (st w) = IDLE"
  by (simp add: second_cached_def eval_defs)

theorem play_all_plays_each_segment_once_witness:
  "handlePlayAll 0 window_atob (st init_world) init_world = Some init_world \<and>
   (\<exists>w. run 0 window_atob second_cached init_world = Some w \<and>
      segments (st w) = [segA, segB] \<and> distinct (map seg_id (segments (st w))) \<and>
      audioCache (st w) ''seg-1'' = None \<and> audioCache (st w) ''seg-2'' = Some ''AQA='' \<and>
      (\<exists>w1 w'. handlePlayAll 0 window_atob (st w) w = Some w1 \<and>
         run 0 window_atob [SpeechResponse 1 (Some ''AAA=''), Ended 1, Ended 2] w1 = Some w' \<and>
         length (sources w') = 3 \<and>
         map (\<lambda>node. channelData (buffer node)) (drop 1 (sources w')) = [[0], [1 / 32768]] \<and>
         map ended (drop 1 (sources w')) = [True, True] \<and>
         map call_text (calls w') = map call_text (calls w) @ [''Reading is essential.''] \<and>
         playbackState (st w') = IDLE \<and> playingSegmentId (st w') = None \<and>
         activeSourceRef w' = None))"
proof -
  have e1: "distinct (map seg_id (segments (st init_world)))"
    and e2: "\<forall>x \<in> set (segments (st init_world)).
      decodePcm window_atob (payload_for (audioCache (st init_world)) example_tts x) =
        Inr (example_decoded x) \<and>
      (cached (audioCache (st init_world)) (seg_id x) = None \<longrightarrow> example_tts x \<noteq> [])"
    and e3: "segments (st init_world) = []"
    by (simp_all add: init_world_def init_state_def)
  from play_all_plays_each_segment_once [OF e1 e2, of 0, THEN conjunct1, THEN mp, OF e3]
  have 1: "handlePlayAll 0 window_atob (st init_world) init_world = Some init_world" .
  from second_cached_run obtain w where
    r: "run 0 window_atob second_cached init_world = Some w" and
    s: "segments (st w) = [segA, segB]" and
    c: "audioCache (st w) ''seg-1'' = None" "audioCache (st w) ''seg-2'' = Some ''AQA=''" and
    l: "length (calls w) = 1" "length (sources w) = 1"
    by blast
  have ids: "seg_id segA = ''seg-1''" "seg_id segB = ''seg-2''"
    "original segA = ''Reading is essential.''"
    by (simp_all add: segA_def segB_def)
  from s ids have d: "distinct (map seg_id (segments (st w)))" by simp
  from s ids c have ok: "\<forall>x \<in> set (segments (st w)).
      decodePcm window_atob (payload_for (audioCache (st w)) example_tts x) =
        Inr (example_decoded x) \<and>
      (cached (audioCache (st w)) (seg_id x) = None \<longrightarrow> example_tts x \<noteq> [])"
    by (simp add: payload_for_def cached_def example_tts_def example_decoded_def
        decodePcm_one_sample decodePcm_one_unit)
  from s have ne: "segments (st w) \<noteq> []" by simp
  have ev: "chain_events (audioCache (st w)) example_tts (length (calls w)) (length (sources w))
      (segments (st w)) = [SpeechResponse 1 (Some ''AAA=''), Ended 1, Ended 2]"
    using s ids c l by (simp add: cached_def example_tts_def)
  from play_all_plays_each_segment_once [OF d ok, of 0, THEN conjunct2, THEN mp, OF ne]
  obtain w1 w' where
    p: "handlePlayAll 0 window_atob (st w) w = Some w1"
      "run 0 window_atob (chain_events (audioCache (st w)) example_tts (length (calls w))
         (length (sources w)) (segments (st w))) w1 = Some w'"
      "length (sources w') = length (sources w) + length (segments (st w))"
      "drop (length (sources w)) (sources w') =
         map (played_node (st w) example_decoded) (segments (st w))"
      "calls w' = calls w @ map (made_call (st w))
         (filter (\<lambda>x. cached (audioCache (st w)) (seg_id x) = None) (segments (st w)))"
      "playbackState (st w') = IDLE" "playingSegmentId (st w') = None" "activeSourceRef w' = None"
    by blast
  from p(2) ev have 2: "run 0 window_atob [SpeechResponse 1 (Some ''AAA=''), Ended 1, Ended 2] w1
      = Some w'"
    by simp
  from p(3) s l have 3: "length (sources w') = 3" by simp
  from p(4) s l ids have 4: "map (\<lambda>node. channelData (buffer node)) (drop 1 (sources w')) =
      [[0], [1 / 32768]]" "map ended (drop 1 (sources w')) = [True, True]"
    by (simp_all add: played_node_def example_decoded_def)
  from p(5) s ids c have 5: "map call_text (calls w') =
      map call_text (calls w) @ [''Reading is essential.'']"
    by (simp add: made_call_def cached_def)
  have inner: "\<exists>w1 w'. handlePlayAll 0 window_atob (st w) w = Some w1 \<and>
      run 0 window_atob [SpeechResponse 1 (Some ''AAA=''), Ended 1, Ended 2] w1 = Some w' \<and>
      length (sources w') = 3 \<and>
      map (\<lambda>node. channelData (buffer node)) (drop 1 (sources w')) = [[0], [1 / 32768]] \<and>
      map ended (drop 1 (sources w')) = [True, True] \<and>
      map call_text (calls w') = map call_text (calls w) @ [''Reading is essential.''] \<and>
      playbackState (st w') = IDLE \<and> playingSegmentId (st w') = None \<and>
      activeSourceRef w' = None"
    using p(1) 2 3 4 5 p(6,7,8) by (intro exI [of _ w1] exI [of _ w'] conjI)
  have "\<exists>w. run 0 window_atob second_cached init_world = Some w \<and>
      segments (st w) = [segA, segB] \<and> distinct (map seg_id (segments (st w))) \<and>
      audioCache (st w) ''seg-1'' = None \<and> audioCache (st w) ''seg-2'' = Some ''AQA='' \<and>
      (\<exists>w1 w'. handlePlayAll 0 window_atob (st w) w = Some w1 \<and>
         run 0 window_atob [SpeechResponse 1 (Some ''AAA=''), Ended 1, Ended 2] w1 = Some w' \<and>
         length (sources w') = 3 \<and>
         map (\<lambda>node. channelData (buffer node)) (drop 1 (sources w')) = [[0], [1 / 32768]] \<and>
         map ended (drop 1 (sources w')) = [True, True] \<and>
         map call_text (calls w') = map call_text (calls w) @ [''Reading is essential.''] \<and>
         playbackState (st w') = IDLE \<and> playingSegmentId (st w') = None \<and>
         activeSourceRef w' = None)"
    using r s d c inner by (rule_tac x = w in exI, intro conjI) assumption+
  with 1 show ?thesis by (rule conjI)
qed

section \<open>A play request on a cached segment\<close>

text \<open>
  When the cache of the render that handles a play request holds a payload for the
  segment, and the payload decodes, \<^verbatim>\<open>playSegment\<close> makes no synthesis call: it sets the
  phase to \<open>PLAYING\<close> and starts a node with the decoded payload.
\<close>

theorem cached_segment_plays_without_call:
  assumes "cached (audioCache e) (seg_id seg) = Some p" and "decodePcm atob p = Inr buf"
  shows "\<exists>w'. playSegment n atob e seg auto w = Some w' \<and> calls w' = calls w \<and>
           playbackState (st w') = PLAYING \<and> playingSegmentId (st w') = Some (seg_id seg) \<and>
           activeSourceRef w' = Some (length (sources w)) \<and>
           length (sources w') = Suc (length (sources w)) \<and>
           buffer (sources w' ! length (sources w)) = buf"
proof -
  let ?cl = "\<lparr>segment = seg, autoPlayNext = auto, env = e\<rparr>"
  let ?wA = "setPlaybackState PLAYING (setPlayingSegmentId (Some (seg_id seg)) w)"
  from assms(1) have "playSegment n atob e seg auto w = playPcmData n atob p ?cl ?wA"
    by (simp add: playSegment.simps)
  moreover from playPcmData_starts [OF assms(2), of n ?cl ?wA] obtain w' where
    "playPcmData n atob p ?cl ?wA = Some w'"
    "sources w' = stopped_sources (activeSourceRef ?wA) (sources ?wA) @
       [\<lparr>buffer = buf, onended = Some ?cl, stopped = False, ended = False\<rparr>]"
    "activeSourceRef w' = Some (length (sources ?wA))" "calls w' = calls ?wA" "st w' = st ?wA"
    by blast
  ultimately show ?thesis
    by (intro exI [of _ w']) (simp add: setter_defs nth_append)
qed

theorem cached_segment_plays_without_call_witness:
  "\<exists>w. run 0 window_atob both_cached init_world = Some w \<and>
     cached (audioCache (st w)) (seg_id segB) = Some ''AQA='' \<and>
     (\<exists>w'. playSegment 0 window_atob (st w) segB False w = Some w' \<and> calls w' = calls w \<and>
        playbackState (st w') = PLAYING \<and> playingSegmentId (st w') = Some ''seg-2'' \<and>
        activeSourceRef w' = Some 2 \<and>
        channelData (buffer (sources w' ! 2)) = [1 / 32768])"
proof -
  from both_cached_run obtain w where
    r: "run 0 window_atob both_cached init_world = Some w" and
    l: "length (sources w) = 2" and c: "audioCache (st w) ''seg-2'' = Some ''AQA=''"
    by blast
  from c have h: "cached (audioCache (st w)) (seg_id segB) = Some ''AQA=''"
    by (simp add: cached_def segB_def)
  from cached_segment_plays_without_call [OF h decodePcm_one_unit, of 0 False w] l
  obtain w' where "playSegment 0 window_atob (st w) segB False w = Some w'"
    "calls w' = calls w" "playbackState (st w') = PLAYING"
    "playingSegmentId (st w') = Some ''seg-2''" "activeSourceRef w' = Some 2"
    "channelData (buffer (sources w' ! 2)) = [1 / 32768]"
    by (auto simp: segB_def)
  with r h show ?thesis by blast
qed

end
